theory Spec2Isabelle
  imports Main
begin

section \<open>Exceptions\<close>

text \<open>
  The exceptions the uploader raises or receives, as values. The botocore hierarchy is
  kept as far as the \<^verbatim>\<open>except\<close> clauses of the source look at it:
  \<^verbatim>\<open>ReadTimeoutError\<close> and \<^verbatim>\<open>ConnectTimeoutError\<close> are subclasses of
  \<^verbatim>\<open>BotoCoreError\<close>; \<^verbatim>\<open>ClientError\<close> is not. A \<^verbatim>\<open>ClientError\<close> carries the two
  response fields the source reads: \<^verbatim>\<open>ResponseMetadata.HTTPStatusCode\<close> and
  \<^verbatim>\<open>Error.Code\<close>, each possibly absent (\<^verbatim>\<open>dict.get\<close> then gives \<^verbatim>\<open>None\<close>).
  \<open>OtherException\<close> is any other subclass of \<^verbatim>\<open>Exception\<close>, such as the \<^verbatim>\<open>OSError\<close> of
  a file that cannot be read. Interrupts (\<^verbatim>\<open>KeyboardInterrupt\<close>, \<^verbatim>\<open>SystemExit\<close>) are
  not modelled.
\<close>

datatype runtime_msg =
    UploadIdNotSet
  | InsufficientStorage
  | ExceededMaxRetries
  | PartCountMismatch int int
  | SizeMismatch

datatype exc =
    ReadTimeoutError
  | ConnectTimeoutError
  | OtherBotoCoreError
  | ClientError "int option" "string option"
  | RuntimeError runtime_msg
  | ZeroDivisionError
  | OverflowError
  | TypeError
  | AttributeError
  | OtherException

fun is_timeout_error :: "exc \<Rightarrow> bool" where
  "is_timeout_error ReadTimeoutError = True"
| "is_timeout_error ConnectTimeoutError = True"
| "is_timeout_error _ = False"

fun is_client_error :: "exc \<Rightarrow> bool" where
  "is_client_error (ClientError st code) = True"
| "is_client_error _ = False"

fun is_botocore_error :: "exc \<Rightarrow> bool" where
  "is_botocore_error ReadTimeoutError = True"
| "is_botocore_error ConnectTimeoutError = True"
| "is_botocore_error OtherBotoCoreError = True"
| "is_botocore_error _ = False"

fun is_insufficient_storage_error :: "exc \<Rightarrow> bool" where
  "is_insufficient_storage_error (ClientError st code) = (st = Some 507)"
| "is_insufficient_storage_error _ = False"

fun is_524_error :: "exc \<Rightarrow> bool" where
  "is_524_error (ClientError st code) = (st = Some 524)"
| "is_524_error _ = False"

fun is_no_such_upload_error :: "exc \<Rightarrow> bool" where
  "is_no_such_upload_error (ClientError st code) = (code = Some ''NoSuchUpload'')"
| "is_no_such_upload_error _ = False"

section \<open>Python's true division and \<^verbatim>\<open>math.ceil\<close>\<close>

text \<open>
  \<^verbatim>\<open>file_size / self.part_size\<close> divides two Python ints with \<^verbatim>\<open>/\<close>: the result is the
  binary64 float nearest to the exact quotient (ties to the even mantissa), not the
  quotient. A finite binary64 value is \<open>m * 2 ^ e\<close> for integers \<open>m\<close>, \<open>e\<close> with
  \<open>\<bar>m\<bar> \<le> 2 ^ 53\<close> and \<open>- 1074 \<le> e\<close>; it is kept here as that pair, and all
  arithmetic on it is integer arithmetic.
\<close>

datatype double = Double int int

function bit_length :: "int \<Rightarrow> nat" where
  \<comment> \<open>\<^verbatim>\<open>int.bit_length\<close> of a positive int\<close>
  "bit_length n = (if n \<le> 0 then 0 else Suc (bit_length (n div 2)))"
  by pat_completeness auto
termination
  by (relation "measure nat") auto

declare bit_length.simps [simp del]

definition rne_div :: "int \<Rightarrow> int \<Rightarrow> int" where
  \<comment> \<open>\<open>n / d\<close> rounded to the nearest integer, ties to even, for \<open>0 \<le> n\<close> and \<open>0 < d\<close>\<close>
  "rne_div n d =
     (let q = n div d; r = n mod d
      in if 2 * r < d then q
         else if d < 2 * r then q + 1
         else if even q then q else q + 1)"

definition scaled_le :: "int \<Rightarrow> int \<Rightarrow> int \<Rightarrow> bool" where
  \<comment> \<open>\<open>d * 2 ^ k \<le> n\<close> for an exponent \<open>k\<close> of either sign\<close>
  "scaled_le d k n = (if 0 \<le> k then d * 2 ^ nat k \<le> n else d \<le> n * 2 ^ nat (- k))"

definition quot_exponent :: "int \<Rightarrow> int \<Rightarrow> int" where
  \<comment> \<open>the \<open>k\<close> with \<open>2 ^ k \<le> n / d < 2 ^ (k + 1)\<close>, for \<open>0 < n\<close> and \<open>0 < d\<close>\<close>
  "quot_exponent n d =
     (let k = int (bit_length n) - int (bit_length d)
      in if scaled_le d k n then k else k - 1)"

definition py_int_truediv :: "int \<Rightarrow> int \<Rightarrow> exc + double" where
  \<comment> \<open>\<^verbatim>\<open>a / b\<close> on ints: 53 significant bits in the normal range, multiples of
      \<open>2 ^ - 1074\<close> below it, \<^verbatim>\<open>OverflowError\<close> when the rounded value reaches \<open>2 ^ 1024\<close>\<close>
  "py_int_truediv a b =
     (if b = 0 then Inl ZeroDivisionError
      else if a = 0 then Inr (Double 0 0)
      else
        let n = \<bar>a\<bar>; d = \<bar>b\<bar>;
            e = max (quot_exponent n d - 52) (- 1074);
            m = (if 0 \<le> e then rne_div n (d * 2 ^ nat e) else rne_div (n * 2 ^ nat (- e)) d)
        in if 972 \<le> e \<or> (e = 971 \<and> m = 2 ^ 53) then Inl OverflowError
           else Inr (Double (sgn a * sgn b * m) e))"

definition py_float :: "int \<Rightarrow> exc + double" where
  \<comment> \<open>\<^verbatim>\<open>float(a)\<close> on an int: the nearest binary64 value, as for \<^verbatim>\<open>a / 1\<close>\<close>
  "py_float a = py_int_truediv a 1"

fun py_ceil :: "double \<Rightarrow> int" where
  \<comment> \<open>\<^verbatim>\<open>math.ceil\<close> of a finite float, an exact int\<close>
  "py_ceil (Double m e) = (if 0 \<le> e then m * 2 ^ nat e else - ((- m) div 2 ^ nat (- e)))"

fun double_div_pow2 :: "double \<Rightarrow> nat \<Rightarrow> double" where
  \<comment> \<open>a float that is zero or at least 1 in magnitude, divided by the float \<open>2 ^ j\<close> for
      \<open>j \<le> 1022\<close>: the quotient is exact, only the exponent changes\<close>
  "double_div_pow2 (Double m e) j = Double m (e - int j)"

section \<open>Chunk plan\<close>

text \<open>
  \<^verbatim>\<open>total_parts = math.ceil(file_size / self.part_size)\<close>, and the loop of \<^verbatim>\<open>upload\<close>
  over \<^verbatim>\<open>range(1, total_parts + 1)\<close> that computes for each part number its
  \<^verbatim>\<open>offset\<close> and \<^verbatim>\<open>chunk_size\<close>.
\<close>

definition total_parts :: "int \<Rightarrow> int \<Rightarrow> exc + int" where
  "total_parts file_size part_size =
     (case py_int_truediv file_size part_size of
        Inl x \<Rightarrow> Inl x
      | Inr q \<Rightarrow> Inr (py_ceil q))"

definition chunk_offset :: "int \<Rightarrow> int \<Rightarrow> int" where
  "chunk_offset part_size part_num = (part_num - 1) * part_size"

definition chunk_size :: "int \<Rightarrow> int \<Rightarrow> int \<Rightarrow> int" where
  "chunk_size file_size part_size part_num =
     min part_size (file_size - chunk_offset part_size part_num)"

definition chunk_plan :: "int \<Rightarrow> int \<Rightarrow> int \<Rightarrow> (int \<times> int \<times> int) list" where
  "chunk_plan file_size part_size tp =
     map (\<lambda>part_num. (part_num, chunk_offset part_size part_num,
                       chunk_size file_size part_size part_num)) [1..tp]"

definition completion_timeout :: "int \<Rightarrow> exc + int" where
  \<comment> \<open>\<^verbatim>\<open>file_gb = file_size / float(1024**3)\<close>;
      \<^verbatim>\<open>completion_timeout = max(60, int(math.ceil(file_gb) * 5))\<close>\<close>
  "completion_timeout file_size =
     (case py_float file_size of
        Inl x \<Rightarrow> Inl x
      | Inr f \<Rightarrow> Inr (max 60 (py_ceil (double_div_pow2 f 30) * 5)))"

section \<open>The store, the uploader object and the observable trace\<close>

text \<open>
  The object store is outside the program. Each of its operations is an oracle giving the
  outcome of the \<open>k\<close>-th call of that operation (\<open>k\<close> counted from 0): an exception
  (\<open>Inl\<close>) or the part of the response the source reads (\<open>Inr\<close>). Every sequence of
  answers a store can give is such an oracle. The outcome of an \<^verbatim>\<open>upload_part\<close> attempt
  (reading the byte range from the file, then the request) is indexed by the part number
  and the number of earlier attempts for that part, so it does not depend on how the
  worker threads interleave. \<open>getsize\<close> is what \<^verbatim>\<open>os.path.getsize(self.file_path)\<close>
  returns. The runs studied are those in which it returns: its \<^verbatim>\<open>OSError\<close> (no such
  file), which ends \<^verbatim>\<open>upload\<close> in its first line, is not a branch of the model.
\<close>

record store =
  getsize :: int
  s3_create_multipart_upload :: "nat \<Rightarrow> exc + string"
  s3_upload_part :: "int \<Rightarrow> nat \<Rightarrow> exc + string"
  s3_list_parts :: "nat \<Rightarrow> exc + int list"
  s3_complete_multipart_upload :: "nat \<Rightarrow> exc + unit"
  s3_head_object :: "nat \<Rightarrow> exc + int option"

text \<open>
  What the program does to the outside, in order: the store requests it sends, the
  \<^verbatim>\<open>time.sleep\<close> calls with their duration in seconds, and the log line
  \<^verbatim>\<open>UploadId ... left open for resumption\<close>. \<open>AbortCall\<close> stands for the store's
  \<^verbatim>\<open>abort_multipart_upload\<close> request. \<open>UploadPartCall\<close> carries \<^verbatim>\<open>part_number\<close>,
  \<^verbatim>\<open>offset\<close> and \<^verbatim>\<open>bytes_to_read\<close>; \<open>CompleteCall\<close> carries the read and connect
  timeout of the client that sends it. The other log lines and the progress counter
  (\<^verbatim>\<open>parts_completed\<close>, used for the percentage in a log line only) are left out.
\<close>

datatype event =
    CreateCall
  | UploadPartCall int int int
  | ListPartsCall
  | CompleteCall int
  | HeadCall
  | AbortCall
  | Sleep int
  | ReportSession string

fun is_create_call :: "event \<Rightarrow> bool" where
  "is_create_call CreateCall = True"
| "is_create_call _ = False"

fun is_upload_part_call :: "int \<Rightarrow> event \<Rightarrow> bool" where
  "is_upload_part_call p (UploadPartCall q off len) = (p = q)"
| "is_upload_part_call p _ = False"

fun is_list_parts_call :: "event \<Rightarrow> bool" where
  "is_list_parts_call ListPartsCall = True"
| "is_list_parts_call _ = False"

fun is_complete_call :: "event \<Rightarrow> bool" where
  "is_complete_call (CompleteCall t) = True"
| "is_complete_call _ = False"

fun is_head_call :: "event \<Rightarrow> bool" where
  "is_head_call HeadCall = True"
| "is_head_call _ = False"

fun is_sleep :: "event \<Rightarrow> bool" where
  "is_sleep (Sleep t) = True"
| "is_sleep _ = False"

text \<open>
  Classes of events, for stating what a phase of the run can add to the trace: the part
  phase, the completion coordinator, and the whole \<^verbatim>\<open>try\<close> block of \<^verbatim>\<open>upload\<close>.
\<close>

fun is_part_phase_event :: "event \<Rightarrow> bool" where
  "is_part_phase_event (UploadPartCall p off len) = True"
| "is_part_phase_event (Sleep t) = True"
| "is_part_phase_event _ = False"

fun is_completion_event :: "event \<Rightarrow> bool" where
  "is_completion_event (CompleteCall t) = True"
| "is_completion_event HeadCall = True"
| "is_completion_event (Sleep t) = True"
| "is_completion_event _ = False"

fun is_body_event :: "event \<Rightarrow> bool" where
  "is_body_event CreateCall = False"
| "is_body_event AbortCall = False"
| "is_body_event (ReportSession u) = False"
| "is_body_event _ = True"

definition calls :: "(event \<Rightarrow> bool) \<Rightarrow> event list \<Rightarrow> nat" where
  "calls P tr = length (filter P tr)"

text \<open>
  The fields of \<^verbatim>\<open>LargeMultipartUploader\<close> the code under study reads or writes.
  \<open>client_timeout\<close> is the read/connect timeout of the configuration behind
  \<^verbatim>\<open>self.s3\<close> (\<open>None\<close>: botocore's default).
\<close>

record uploader =
  part_size :: int
  max_retries :: int
  upload_id :: "string option"
  client_timeout :: "int option"
  trace :: "event list"

definition emit :: "event \<Rightarrow> uploader \<Rightarrow> uploader" where
  "emit ev s = s\<lparr>trace := trace s @ [ev]\<rparr>"

text \<open>
  A store request: the oracle is asked for the answer to the next call of this
  operation, and the request is recorded. The three closures passed to
  \<^verbatim>\<open>call_with_524_retry\<close> are such requests.
\<close>

definition store_call ::
  "(event \<Rightarrow> bool) \<Rightarrow> event \<Rightarrow> (nat \<Rightarrow> exc + 'a) \<Rightarrow> uploader \<Rightarrow> (exc + 'a) \<times> uploader" where
  "store_call P ev answers s = (answers (calls P (trace s)), emit ev s)"

definition create_call :: "store \<Rightarrow> uploader \<Rightarrow> (exc + string) \<times> uploader" where
  "create_call env = store_call is_create_call CreateCall (s3_create_multipart_upload env)"

definition fetch_parts :: "store \<Rightarrow> uploader \<Rightarrow> (exc + int list) \<times> uploader" where
  "fetch_parts env = store_call is_list_parts_call ListPartsCall (s3_list_parts env)"

definition head_call :: "store \<Rightarrow> uploader \<Rightarrow> (exc + int option) \<times> uploader" where
  "head_call env = store_call is_head_call HeadCall (s3_head_object env)"

section \<open>\<^verbatim>\<open>call_with_524_retry\<close>\<close>

text \<open>
  The loop \<^verbatim>\<open>for attempt in range(1, self.max_retries + 1)\<close>, from \<open>attempt\<close> on. Nothing
  assigns \<^verbatim>\<open>self.max_retries\<close> after \<^verbatim>\<open>__init__\<close>, so the loops take it as the argument
  \<open>mr\<close>. A loop that runs out of attempts falls off the end of the function, which then
  returns \<^verbatim>\<open>None\<close>: the result \<open>Inr None\<close>.
\<close>

function call_with_524_retry_from ::
  "int \<Rightarrow> (uploader \<Rightarrow> (exc + 'a) \<times> uploader) \<Rightarrow> int \<Rightarrow> uploader
     \<Rightarrow> (exc + 'a option) \<times> uploader" where
  "call_with_524_retry_from mr func attempt s =
     (if mr < attempt then (Inr None, s)
      else
        case func s of
          (Inr v, s1) \<Rightarrow> (Inr (Some v), s1)
        | (Inl e, s1) \<Rightarrow>
            if is_client_error e then
              if is_524_error e then
                if attempt = mr then (Inl e, s1)
                else call_with_524_retry_from mr func (attempt + 1)
                       (emit (Sleep (2 ^ nat attempt)) s1)
              else (Inl e, s1)
            else if is_timeout_error e then
              if attempt = mr then (Inl e, s1)
              else call_with_524_retry_from mr func (attempt + 1)
                     (emit (Sleep (2 ^ nat attempt)) s1)
            else (Inl e, s1))"
  by pat_completeness auto
termination
  by (relation "measure (\<lambda>(mr, func, attempt, s). nat (mr + 1 - attempt))") auto

declare call_with_524_retry_from.simps [simp del]

definition call_with_524_retry ::
  "(uploader \<Rightarrow> (exc + 'a) \<times> uploader) \<Rightarrow> uploader \<Rightarrow> (exc + 'a option) \<times> uploader" where
  "call_with_524_retry func s = call_with_524_retry_from (max_retries s) func 1 s"

section \<open>\<^verbatim>\<open>complete_with_timeout_retry\<close>\<close>

definition exhausted_error :: "exc option \<Rightarrow> exc" where
  \<comment> \<open>\<^verbatim>\<open>last_exc if last_exc else RuntimeError(...)\<close>; an exception object is truthy\<close>
  "exhausted_error last_exc =
     (case last_exc of Some e \<Rightarrow> e | None \<Rightarrow> RuntimeError ExceededMaxRetries)"

text \<open>
  The loop of \<^verbatim>\<open>complete_with_timeout_retry\<close> from \<open>attempt\<close> on, with the current
  \<open>timeout\<close> and \<open>last_exc\<close>. An exception of the complete request outside
  \<^verbatim>\<open>ClientError\<close> and \<^verbatim>\<open>BotoCoreError\<close> is not caught. Everything the poll raises is
  caught (\<^verbatim>\<open>except Exception\<close>), also the \<^verbatim>\<open>AttributeError\<close> of \<^verbatim>\<open>head.get\<close> on
  \<^verbatim>\<open>None\<close>, so the poll counts only when it returns the expected size. On success the
  client of the attempt replaces \<^verbatim>\<open>self.s3\<close>, which is the update of \<open>client_timeout\<close>.
  \<^verbatim>\<open>parts_sorted\<close> only goes into the request, whose answer is the oracle's, so it is
  not an argument here.
\<close>

function complete_from ::
  "store \<Rightarrow> int \<Rightarrow> int \<Rightarrow> int \<Rightarrow> int \<Rightarrow> exc option \<Rightarrow> uploader
     \<Rightarrow> (exc + unit) \<times> uploader" where
  "complete_from env mr expected_size attempt timeout last_exc s =
     (if mr < attempt then (Inr (), s)
      else
        let s1 = emit (CompleteCall timeout) s
        in case s3_complete_multipart_upload env (calls is_complete_call (trace s)) of
             Inr u \<Rightarrow> (Inr (), s1\<lparr>client_timeout := Some timeout\<rparr>)
           | Inl e \<Rightarrow>
               if is_timeout_error e \<or> is_client_error e \<or> is_botocore_error e then
                 let no_such_upload = (\<not> is_timeout_error e \<and> is_no_such_upload_error e);
                     s2 = (if no_such_upload then s1 else emit (Sleep timeout) s1);
                     (head, s3) = call_with_524_retry_from mr (head_call env) 1 s2
                 in if head = Inr (Some (Some expected_size))
                    then (Inr (), s3\<lparr>client_timeout := Some timeout\<rparr>)
                    else if attempt = mr then (Inl (exhausted_error (Some e)), s3)
                    else complete_from env mr expected_size (attempt + 1) (timeout * 2)
                           (Some e) s3
               else (Inl e, s1))"
  by pat_completeness auto
termination
  by (relation "measure (\<lambda>(env, mr, expected_size, attempt, timeout, last_exc, s).
        nat (mr + 1 - attempt))") auto

declare complete_from.simps [simp del]

definition complete_with_timeout_retry ::
  "store \<Rightarrow> int \<Rightarrow> int \<Rightarrow> uploader \<Rightarrow> (exc + unit) \<times> uploader" where
  "complete_with_timeout_retry env initial_timeout expected_size s =
     (if upload_id s = None then (Inl (RuntimeError UploadIdNotSet), s)
      else complete_from env (max_retries s) expected_size 1 initial_timeout None s)"

section \<open>\<^verbatim>\<open>upload_part\<close>\<close>

text \<open>
  The retry loop of \<^verbatim>\<open>upload_part\<close> from \<open>attempt\<close> on. One oracle answer stands for the
  body of the \<^verbatim>\<open>try\<close> up to \<^verbatim>\<open>resp["ETag"]\<close>: reading the bytes and the request. The
  clause \<^verbatim>\<open>except (BotoCoreError, ClientError)\<close> catches the timeouts too. After the
  store has answered, \<^verbatim>\<open>100.0 * self.parts_completed / total_parts\<close> divides by
  \<^verbatim>\<open>total_parts\<close>; a \<^verbatim>\<open>ZeroDivisionError\<close> there is not caught. The rest of the
  progress line (the estimate of the time remaining and its formatting) is left out. A
  returned part is the pair of \<^verbatim>\<open>PartNumber\<close> and \<^verbatim>\<open>ETag\<close>.
\<close>

function upload_part_from ::
  "store \<Rightarrow> int \<Rightarrow> int \<Rightarrow> int \<Rightarrow> int \<Rightarrow> int \<Rightarrow> int \<Rightarrow> uploader
     \<Rightarrow> (exc + (int \<times> string) option) \<times> uploader" where
  "upload_part_from env mr part_number offset bytes_to_read tp attempt s =
     (if mr < attempt then (Inr None, s)
      else
        let s1 = emit (UploadPartCall part_number offset bytes_to_read) s
        in case s3_upload_part env part_number
                  (calls (is_upload_part_call part_number) (trace s)) of
             Inr etag \<Rightarrow>
               if tp = 0 then (Inl ZeroDivisionError, s1)
               else (Inr (Some (part_number, etag)), s1)
           | Inl e \<Rightarrow>
               if is_botocore_error e \<or> is_client_error e then
                 if is_insufficient_storage_error e
                 then (Inl (RuntimeError InsufficientStorage), s1)
                 else if attempt = mr then (Inl e, s1)
                 else upload_part_from env mr part_number offset bytes_to_read tp
                        (attempt + 1) (emit (Sleep (2 ^ nat attempt)) s1)
               else (Inl e, s1))"
  by pat_completeness auto
termination
  by (relation "measure (\<lambda>(env, mr, part_number, offset, bytes_to_read, tp, attempt, s).
        nat (mr + 1 - attempt))") auto

declare upload_part_from.simps [simp del]

definition upload_part ::
  "store \<Rightarrow> int \<Rightarrow> int \<Rightarrow> int \<Rightarrow> int \<Rightarrow> uploader
     \<Rightarrow> (exc + (int \<times> string) option) \<times> uploader" where
  "upload_part env part_number offset bytes_to_read tp s =
     (if upload_id s = None then (Inl (RuntimeError UploadIdNotSet), s)
      else upload_part_from env (max_retries s) part_number offset bytes_to_read tp 1 s)"

section \<open>The driver \<^verbatim>\<open>upload\<close>\<close>

text \<open>
  The part phase. The pool runs every submitted task to its end, also after one of them
  has failed (leaving the \<^verbatim>\<open>with\<close> block waits for all of them), and
  \<^verbatim>\<open>fut.result()\<close> re-raises the exception of a failed task. The four workers are run
  here one after the other in the order of the part numbers, and of several failed
  parts the one with the lowest number is raised; the interleaving of the workers and the
  order of \<^verbatim>\<open>as_completed\<close> are not modelled.
\<close>

fun upload_parts ::
  "store \<Rightarrow> int \<Rightarrow> int \<Rightarrow> int list \<Rightarrow> uploader
     \<Rightarrow> (exc + (int \<times> string) option) list \<times> uploader" where
  "upload_parts env file_size tp [] s = ([], s)"
| "upload_parts env file_size tp (part_num # rest) s =
     (let (r, s1) = upload_part env part_num (chunk_offset (part_size s) part_num)
                      (chunk_size file_size (part_size s) part_num) tp s;
          (rs, s2) = upload_parts env file_size tp rest s1
      in (r # rs, s2))"

fun collect_results :: "(exc + 'a) list \<Rightarrow> exc + 'a list" where
  "collect_results [] = Inr []"
| "collect_results (Inl e # rs) = Inl e"
| "collect_results (Inr v # rs) =
     (case collect_results rs of Inl e \<Rightarrow> Inl e | Inr vs \<Rightarrow> Inr (v # vs))"

fun sort_parts :: "(int \<times> string) option list \<Rightarrow> exc + (int \<times> string) list" where
  \<comment> \<open>\<^verbatim>\<open>sorted(parts, key=lambda x: x["PartNumber"])\<close>; subscripting \<^verbatim>\<open>None\<close> raises\<close>
  "sort_parts parts =
     (if None \<in> set parts then Inl TypeError
      else Inr (sort_key fst (map the parts)))"

text \<open>The body of the \<^verbatim>\<open>try\<close> block of \<^verbatim>\<open>upload\<close>.\<close>

definition upload_body ::
  "store \<Rightarrow> int \<Rightarrow> int \<Rightarrow> int \<Rightarrow> uploader \<Rightarrow> (exc + unit) \<times> uploader" where
  "upload_body env file_size tp timeout s =
     (let (rs, s1) = upload_parts env file_size tp [1..tp] s
      in case collect_results rs of
           Inl e \<Rightarrow> (Inl e, s1)
         | Inr parts \<Rightarrow>
             (case call_with_524_retry (fetch_parts env) s1 of
                (Inl e, s2) \<Rightarrow> (Inl e, s2)
              | (Inr None, s2) \<Rightarrow> (Inl TypeError, s2)
              | (Inr (Some seen), s2) \<Rightarrow>
                  if int (length seen) \<noteq> tp
                  then (Inl (RuntimeError (PartCountMismatch tp (int (length seen)))), s2)
                  else
                    (case sort_parts parts of
                       Inl e \<Rightarrow> (Inl e, s2)
                     | Inr parts_sorted \<Rightarrow>
                         (case complete_with_timeout_retry env timeout file_size s2 of
                            (Inl e, s3) \<Rightarrow> (Inl e, s3)
                          | (Inr u, s3) \<Rightarrow>
                              (case call_with_524_retry (head_call env) s3 of
                                 (Inl e, s4) \<Rightarrow> (Inl e, s4)
                               | (Inr None, s4) \<Rightarrow> (Inl AttributeError, s4)
                               | (Inr (Some uploaded_size), s4) \<Rightarrow>
                                   if uploaded_size \<noteq> Some file_size
                                   then (Inl (RuntimeError SizeMismatch), s4)
                                   else (Inr (), s4))))))"

definition report_session :: "uploader \<Rightarrow> uploader" where
  \<comment> \<open>\<^verbatim>\<open>if self.upload_id: logger.info(f"UploadId {self.upload_id} left open ...")\<close>;
      \<^verbatim>\<open>None\<close> and the empty string are falsy\<close>
  "report_session s =
     (case upload_id s of
        None \<Rightarrow> s
      | Some u \<Rightarrow> if u = [] then s else emit (ReportSession u) s)"

text \<open>
  \<^verbatim>\<open>upload\<close>: the sizes, the session, then the \<^verbatim>\<open>try\<close> block with its handler, which
  reports and re-raises. \<^verbatim>\<open>resp["UploadId"]\<close> on the \<^verbatim>\<open>None\<close> of a retry loop that
  never ran raises \<^verbatim>\<open>TypeError\<close>, before the \<^verbatim>\<open>try\<close>.
\<close>

definition upload :: "store \<Rightarrow> uploader \<Rightarrow> (exc + unit) \<times> uploader" where
  "upload env s =
     (let file_size = getsize env
      in case total_parts file_size (part_size s) of
           Inl e \<Rightarrow> (Inl e, s)
         | Inr tp \<Rightarrow>
             (case completion_timeout file_size of
                Inl e \<Rightarrow> (Inl e, s)
              | Inr timeout \<Rightarrow>
                  (case call_with_524_retry (create_call env) s of
                     (Inl e, s1) \<Rightarrow> (Inl e, s1)
                   | (Inr None, s1) \<Rightarrow> (Inl TypeError, s1)
                   | (Inr (Some uid), s1) \<Rightarrow>
                       (case upload_body env file_size tp timeout (s1\<lparr>upload_id := Some uid\<rparr>) of
                          (Inl e, s2) \<Rightarrow> (Inl e, report_session s2)
                        | (Inr u, s2) \<Rightarrow> (Inr (), s2)))))"

section \<open>Example stores and uploaders\<close>

text \<open>
  \<open>new_uploader\<close> has the fields as \<^verbatim>\<open>__init__\<close> leaves them; \<open>started_uploader\<close> has a
  session. The stores are scripts for the runs evaluated below: a 101 MiB file whose
  requests all succeed, and variations of it.
\<close>

definition new_uploader :: "int \<Rightarrow> int \<Rightarrow> uploader" where
  "new_uploader ps mr =
     \<lparr>part_size = ps, max_retries = mr, upload_id = None, client_timeout = None, trace = []\<rparr>"

definition started_uploader :: "int \<Rightarrow> int \<Rightarrow> uploader" where
  "started_uploader ps mr = (new_uploader ps mr)\<lparr>upload_id := Some ''u1''\<rparr>"

definition store_ok :: store where
  "store_ok =
     \<lparr>getsize = 105906176,
      s3_create_multipart_upload = (\<lambda>k. Inr ''u1''),
      s3_upload_part = (\<lambda>p k. Inr ''etag''),
      s3_list_parts = (\<lambda>k. Inr [1, 2, 3]),
      s3_complete_multipart_upload = (\<lambda>k. Inr ()),
      s3_head_object = (\<lambda>k. Inr (Some 105906176))\<rparr>"

definition store_complete_times_out :: store where
  \<comment> \<open>every complete request times out at the client; the object is there in full\<close>
  "store_complete_times_out =
     store_ok\<lparr>s3_complete_multipart_upload := (\<lambda>k. Inl ReadTimeoutError)\<rparr>"

definition store_session_missing :: store where
  \<comment> \<open>the complete request is answered with \<^verbatim>\<open>NoSuchUpload\<close>\<close>
  "store_session_missing =
     store_ok\<lparr>s3_complete_multipart_upload :=
       (\<lambda>k. Inl (ClientError (Some 404) (Some ''NoSuchUpload'')))\<rparr>"

definition store_never_merges :: store where
  \<comment> \<open>every complete request times out and the object stays empty\<close>
  "store_never_merges =
     store_ok\<lparr>s3_complete_multipart_upload := (\<lambda>k. Inl ReadTimeoutError),
              s3_head_object := (\<lambda>k. Inr (Some 0))\<rparr>"

definition store_poll_session_missing :: store where
  \<comment> \<open>every complete request times out, the first poll is answered with
      \<^verbatim>\<open>NoSuchUpload\<close>, and the object stays empty\<close>
  "store_poll_session_missing =
     store_ok\<lparr>s3_complete_multipart_upload := (\<lambda>k. Inl ReadTimeoutError),
              s3_head_object :=
                (\<lambda>k. if k = 0 then Inl (ClientError (Some 404) (Some ''NoSuchUpload''))
                     else Inr (Some 0))\<rparr>"

definition store_full :: store where
  \<comment> \<open>each part gets 524 twice, then 507 Insufficient Storage\<close>
  "store_full =
     store_ok\<lparr>s3_upload_part :=
       (\<lambda>p k. if k < 2 then Inl (ClientError (Some 524) None)
              else Inl (ClientError (Some 507) None))\<rparr>"

definition store_short_recount :: store where
  \<comment> \<open>the recount reports two parts\<close>
  "store_short_recount = store_ok\<lparr>s3_list_parts := (\<lambda>k. Inr [1, 2])\<rparr>"

definition store_empty_recount :: store where
  \<comment> \<open>the recount reports no part\<close>
  "store_empty_recount = store_ok\<lparr>s3_list_parts := (\<lambda>k. Inr [])\<rparr>"

section \<open>Unfolding the loops\<close>

lemma bit_length_0: "bit_length 0 = 0"
  by (simp add: bit_length.simps)

lemma bit_length_1: "bit_length 1 = 1"
  by (simp add: bit_length.simps)

lemma bit_length_One: "bit_length (numeral Num.One) = 1"
  by (simp add: bit_length.simps)

lemma bit_length_Bit0: "bit_length (numeral (Num.Bit0 n)) = Suc (bit_length (numeral n))"
  by (subst bit_length.simps) simp

lemma bit_length_Bit1: "bit_length (numeral (Num.Bit1 n)) = Suc (bit_length (numeral n))"
  by (subst bit_length.simps) simp

lemmas bit_length_numeral =
  bit_length_0 bit_length_1 bit_length_One bit_length_Bit0 bit_length_Bit1

lemmas truediv_eval =
  total_parts_def completion_timeout_def py_float_def py_int_truediv_def quot_exponent_def
  scaled_le_def rne_div_def bit_length_numeral Let_def

lemma call_with_524_retry_from_done:
  "mr < attempt \<Longrightarrow> call_with_524_retry_from mr func attempt s = (Inr None, s)"
  by (simp add: call_with_524_retry_from.simps)

lemma call_with_524_retry_from_step:
  "attempt \<le> mr \<Longrightarrow>
   call_with_524_retry_from mr func attempt s =
     (case func s of
        (Inr v, s1) \<Rightarrow> (Inr (Some v), s1)
      | (Inl e, s1) \<Rightarrow>
          if is_client_error e then
            if is_524_error e then
              if attempt = mr then (Inl e, s1)
              else call_with_524_retry_from mr func (attempt + 1)
                     (emit (Sleep (2 ^ nat attempt)) s1)
            else (Inl e, s1)
          else if is_timeout_error e then
            if attempt = mr then (Inl e, s1)
            else call_with_524_retry_from mr func (attempt + 1)
                   (emit (Sleep (2 ^ nat attempt)) s1)
          else (Inl e, s1))"
  by (subst call_with_524_retry_from.simps) simp

lemma complete_from_done:
  "mr < attempt \<Longrightarrow> complete_from env mr expected_size attempt timeout last_exc s = (Inr (), s)"
  by (simp add: complete_from.simps)

lemma complete_from_step:
  "attempt \<le> mr \<Longrightarrow>
   complete_from env mr expected_size attempt timeout last_exc s =
     (let s1 = emit (CompleteCall timeout) s
      in case s3_complete_multipart_upload env (calls is_complete_call (trace s)) of
           Inr u \<Rightarrow> (Inr (), s1\<lparr>client_timeout := Some timeout\<rparr>)
         | Inl e \<Rightarrow>
             if is_timeout_error e \<or> is_client_error e \<or> is_botocore_error e then
               let no_such_upload = (\<not> is_timeout_error e \<and> is_no_such_upload_error e);
                   s2 = (if no_such_upload then s1 else emit (Sleep timeout) s1);
                   (head, s3) = call_with_524_retry_from mr (head_call env) 1 s2
               in if head = Inr (Some (Some expected_size))
                  then (Inr (), s3\<lparr>client_timeout := Some timeout\<rparr>)
                  else if attempt = mr then (Inl (exhausted_error (Some e)), s3)
                  else complete_from env mr expected_size (attempt + 1) (timeout * 2)
                         (Some e) s3
             else (Inl e, s1))"
  by (subst complete_from.simps) simp

lemma upload_part_from_done:
  "mr < attempt \<Longrightarrow>
   upload_part_from env mr part_number offset bytes_to_read tp attempt s = (Inr None, s)"
  by (simp add: upload_part_from.simps)

lemma upload_part_from_step:
  "attempt \<le> mr \<Longrightarrow>
   upload_part_from env mr part_number offset bytes_to_read tp attempt s =
     (let s1 = emit (UploadPartCall part_number offset bytes_to_read) s
      in case s3_upload_part env part_number
                (calls (is_upload_part_call part_number) (trace s)) of
           Inr etag \<Rightarrow>
             if tp = 0 then (Inl ZeroDivisionError, s1)
             else (Inr (Some (part_number, etag)), s1)
         | Inl e \<Rightarrow>
             if is_botocore_error e \<or> is_client_error e then
               if is_insufficient_storage_error e
               then (Inl (RuntimeError InsufficientStorage), s1)
               else if attempt = mr then (Inl e, s1)
               else upload_part_from env mr part_number offset bytes_to_read tp
                      (attempt + 1) (emit (Sleep (2 ^ nat attempt)) s1)
             else (Inl e, s1))"
  by (subst upload_part_from.simps) simp

lemmas retry_eval =
  call_with_524_retry_from_done call_with_524_retry_from_step call_with_524_retry_def
  store_call_def emit_def calls_def Let_def

lemmas complete_eval =
  complete_from_done complete_from_step complete_with_timeout_retry_def exhausted_error_def
  head_call_def

lemmas part_eval =
  upload_part_from_done upload_part_from_step upload_part_def

lemmas driver_eval =
  upload_def upload_body_def report_session_def create_call_def fetch_parts_def head_call_def
  complete_from_done complete_from_step complete_with_timeout_retry_def exhausted_error_def
  chunk_offset_def chunk_size_def

section \<open>How the retry wrapper extends the trace\<close>

lemma calls_append: "calls P (xs @ ys) = calls P xs + calls P ys"
  by (simp add: calls_def)

lemma calls_single: "calls P [ev] = (if P ev then 1 else 0)"
  by (simp add: calls_def)

text \<open>
  A store request under \<^verbatim>\<open>call_with_524_retry\<close> appends only that request and sleeps;
  if the loop runs at all, the request comes first and last; a returned value is the
  answer to the last request.
\<close>

lemma retry_store_call:
  assumes P: "P ev" "\<And>t. \<not> P (Sleep t)"
  shows "call_with_524_retry_from mr (store_call P ev answers) attempt s = (r, s') \<Longrightarrow>
     \<exists>ext. s' = s\<lparr>trace := trace s @ ext\<rparr> \<and> set ext \<subseteq> insert ev (range Sleep) \<and>
       (attempt \<le> mr \<longrightarrow> ext \<noteq> [] \<and> hd ext = ev \<and> last ext = ev) \<and>
       (\<forall>v. r = Inr (Some v) \<longrightarrow>
          calls P (trace s) < calls P (trace s') \<and> answers (calls P (trace s') - 1) = Inr v)"
proof (induction "nat (mr + 1 - attempt)" arbitrary: attempt s r s')
  case 0
  then have "mr < attempt" by simp
  with 0 show ?case
    by (auto simp: call_with_524_retry_from_done intro!: exI[of _ "[]"])
next
  case (Suc n)
  then have le: "attempt \<le> mr" and n: "n = nat (mr + 1 - (attempt + 1))" by auto
  let ?s1 = "emit ev s"
  let ?a = "answers (calls P (trace s))"
  have c0: "calls P (trace ?s1) = Suc (calls P (trace s))"
    using P by (simp add: emit_def calls_append calls_single)
  then have c1: "calls P (trace ?s1) - 1 = calls P (trace s)" by simp
  show ?case
  proof (cases ?a)
    case (Inr v)
    with Suc.prems le have "r = Inr (Some v)" "s' = ?s1"
      by (auto simp: call_with_524_retry_from_step store_call_def)
    with Inr c0 c1 show ?thesis
      by (auto simp: emit_def intro!: exI[of _ "[ev]"])
  next
    case (Inl e)
    let ?s2 = "emit (Sleep (2 ^ nat attempt)) ?s1"
    consider (stop) "r = Inl e" "s' = ?s1"
      | (retry) "attempt \<noteq> mr"
          "call_with_524_retry_from mr (store_call P ev answers) (attempt + 1) ?s2 = (r, s')"
      using Suc.prems le Inl
      by (auto simp: call_with_524_retry_from_step store_call_def split: if_splits)
    then show ?thesis
    proof cases
      case stop
      then show ?thesis
        by (auto simp: emit_def intro!: exI[of _ "[ev]"])
    next
      case retry
      from Suc.hyps(1)[OF n retry(2)] obtain ext where ext:
        "s' = ?s2\<lparr>trace := trace ?s2 @ ext\<rparr>" "set ext \<subseteq> insert ev (range Sleep)"
        "attempt + 1 \<le> mr \<longrightarrow> ext \<noteq> [] \<and> hd ext = ev \<and> last ext = ev"
        "\<forall>v. r = Inr (Some v) \<longrightarrow>
           calls P (trace ?s2) < calls P (trace s') \<and> answers (calls P (trace s') - 1) = Inr v"
        by blast
      have "calls P (trace s) \<le> calls P (trace ?s2)"
        by (simp add: emit_def calls_append)
      with ext(4) have ans: "\<forall>v. r = Inr (Some v) \<longrightarrow>
           calls P (trace s) < calls P (trace s') \<and> answers (calls P (trace s') - 1) = Inr v"
        by auto
      from retry(1) le have "attempt + 1 \<le> mr" by simp
      with ext(3) have ne: "ext \<noteq> []" "last ext = ev" by simp_all
      have "s' = s\<lparr>trace := trace s @ (ev # Sleep (2 ^ nat attempt) # ext)\<rparr>"
        using ext(1) by (simp add: emit_def)
      moreover have "set (ev # Sleep (2 ^ nat attempt) # ext) \<subseteq> insert ev (range Sleep)"
        using ext(2) by auto
      moreover have "last (ev # Sleep (2 ^ nat attempt) # ext) = ev"
        using ne by simp
      ultimately show ?thesis
        using ans by (intro exI[of _ "ev # Sleep (2 ^ nat attempt) # ext"]) simp
    qed
  qed
qed

lemma poll_facts:
  "call_with_524_retry_from mr (head_call env) attempt s = (r, s') \<Longrightarrow>
     \<exists>ext. s' = s\<lparr>trace := trace s @ ext\<rparr> \<and> set ext \<subseteq> insert HeadCall (range Sleep) \<and>
       (attempt \<le> mr \<longrightarrow> ext \<noteq> [] \<and> hd ext = HeadCall \<and> last ext = HeadCall) \<and>
       (\<forall>v. r = Inr (Some v) \<longrightarrow>
          calls is_head_call (trace s) < calls is_head_call (trace s') \<and>
          s3_head_object env (calls is_head_call (trace s') - 1) = Inr v)"
  unfolding head_call_def by (rule retry_store_call) simp_all

lemma calls_none: "\<forall>ev\<in>set xs. \<not> P ev \<Longrightarrow> calls P xs = 0"
  by (simp add: calls_def)

lemma no_complete_in_poll:
  "set ext \<subseteq> insert HeadCall (range Sleep) \<Longrightarrow> calls is_complete_call ext = 0"
  by (rule calls_none) auto


lemma complete_from_extends:
  "\<exists>ext. trace (snd (complete_from env mr expected_size attempt timeout last_exc s)) = trace s @ ext"
proof (induction "nat (mr + 1 - attempt)" arbitrary: attempt timeout last_exc s)
  case 0
  then have "mr < attempt" by simp
  then show ?case by (simp add: complete_from_done)
next
  case (Suc n)
  then have le: "attempt \<le> mr" and n: "n = nat (mr + 1 - (attempt + 1))" by auto
  let ?s1 = "emit (CompleteCall timeout) s"
  show ?case
  proof (cases "s3_complete_multipart_upload env (calls is_complete_call (trace s))")
    case (Inr u)
    then show ?thesis by (simp add: complete_from_step[OF le] emit_def)
  next
    case (Inl e)
    show ?thesis
    proof (cases "is_timeout_error e \<or> is_client_error e \<or> is_botocore_error e")
      case False
      with Inl show ?thesis by (simp add: complete_from_step[OF le] emit_def)
    next
      case True
      let ?s2 = "if \<not> is_timeout_error e \<and> is_no_such_upload_error e then ?s1
                 else emit (Sleep timeout) ?s1"
      obtain head s3 where poll: "call_with_524_retry_from mr (head_call env) 1 ?s2 = (head, s3)"
        by (cases "call_with_524_retry_from mr (head_call env) 1 ?s2") auto
      from poll_facts[OF poll] obtain ext where ext: "trace s3 = trace ?s2 @ ext"
        by auto
      have s2: "\<exists>ext2. trace ?s2 = trace s @ ext2" by (simp add: emit_def)
      with ext have s3: "\<exists>ext3. trace s3 = trace s @ ext3" by auto
      from Suc.hyps(1)[OF n, of "timeout * 2" "Some e" s3] obtain ext4 where
        "trace (snd (complete_from env mr expected_size (attempt + 1) (timeout * 2) (Some e) s3))
           = trace s3 @ ext4" by blast
      with s3 have rec: "\<exists>ext5. trace (snd (complete_from env mr expected_size (attempt + 1)
            (timeout * 2) (Some e) s3)) = trace s @ ext5" by auto
      show ?thesis
        using Inl True poll s3 rec
        by (simp add: complete_from_step[OF le])
    qed
  qed
qed

lemma complete_from_exhausts:
  assumes fails: "\<And>k. \<exists>e. s3_complete_multipart_upload env k = Inl e \<and>
                     (is_timeout_error e \<or> is_client_error e \<or> is_botocore_error e)"
    and mismatch: "\<And>k. s3_head_object env k \<noteq> Inr (Some expected_size)"
  shows "1 \<le> attempt \<Longrightarrow> attempt \<le> mr \<Longrightarrow>
     s3_complete_multipart_upload env (calls is_complete_call (trace s) + nat (mr - attempt)) = Inl e \<Longrightarrow>
     fst (complete_from env mr expected_size attempt timeout last_exc s) = Inl e \<and>
     calls is_complete_call (trace (snd (complete_from env mr expected_size attempt timeout last_exc s)))
       = calls is_complete_call (trace s) + nat (mr - attempt) + 1"
proof (induction "nat (mr - attempt)" arbitrary: attempt timeout last_exc s)
  case 0
  then have eq: "attempt = mr" by simp
  from fails obtain e1 where e1: "s3_complete_multipart_upload env (calls is_complete_call (trace s)) = Inl e1"
    "is_timeout_error e1 \<or> is_client_error e1 \<or> is_botocore_error e1" by blast
  with 0 eq have "e1 = e" by simp
  let ?s1 = "emit (CompleteCall timeout) s"
  let ?s2 = "if \<not> is_timeout_error e1 \<and> is_no_such_upload_error e1 then ?s1
             else emit (Sleep timeout) ?s1"
  obtain head s3 where poll: "call_with_524_retry_from mr (head_call env) 1 ?s2 = (head, s3)"
    by (cases "call_with_524_retry_from mr (head_call env) 1 ?s2") auto
  from poll_facts[OF poll] obtain ext where ext: "trace s3 = trace ?s2 @ ext"
    "set ext \<subseteq> insert HeadCall (range Sleep)"
    "\<forall>v. head = Inr (Some v) \<longrightarrow> s3_head_object env (calls is_head_call (trace s3) - 1) = Inr v"
    by auto
  from ext(3) mismatch have ne: "head \<noteq> Inr (Some (Some expected_size))" by auto
  have cnt: "calls is_complete_call (trace s3) = calls is_complete_call (trace s) + 1"
    using ext(1) no_complete_in_poll[OF ext(2)]
    by (simp add: emit_def calls_def)
  show ?case
    using e1 poll ne cnt eq \<open>e1 = e\<close>
    by (simp add: complete_from_step[of mr mr] exhausted_error_def)
next
  case (Suc n)
  then have lt: "attempt < mr" and n: "n = nat (mr - (attempt + 1))" by auto
  from fails obtain e1 where e1: "s3_complete_multipart_upload env (calls is_complete_call (trace s)) = Inl e1"
    "is_timeout_error e1 \<or> is_client_error e1 \<or> is_botocore_error e1" by blast
  let ?s1 = "emit (CompleteCall timeout) s"
  let ?s2 = "if \<not> is_timeout_error e1 \<and> is_no_such_upload_error e1 then ?s1
             else emit (Sleep timeout) ?s1"
  obtain head s3 where poll: "call_with_524_retry_from mr (head_call env) 1 ?s2 = (head, s3)"
    by (cases "call_with_524_retry_from mr (head_call env) 1 ?s2") auto
  from poll_facts[OF poll] obtain ext where ext: "trace s3 = trace ?s2 @ ext"
    "set ext \<subseteq> insert HeadCall (range Sleep)"
    "\<forall>v. head = Inr (Some v) \<longrightarrow> s3_head_object env (calls is_head_call (trace s3) - 1) = Inr v"
    by auto
  from ext(3) mismatch have ne: "head \<noteq> Inr (Some (Some expected_size))" by auto
  have cnt: "calls is_complete_call (trace s3) = calls is_complete_call (trace s) + 1"
    using ext(1) no_complete_in_poll[OF ext(2)]
    by (simp add: emit_def calls_def)
  have idx: "calls is_complete_call (trace s3) + nat (mr - (attempt + 1))
      = calls is_complete_call (trace s) + nat (mr - attempt)"
    using cnt lt by simp
  have "1 \<le> attempt + 1" "attempt + 1 \<le> mr" using Suc.prems lt by simp_all
  from Suc.hyps(1)[OF n this, of s3 "timeout * 2" "Some e1"] Suc.prems(3) idx
  have rec: "fst (complete_from env mr expected_size (attempt + 1) (timeout * 2) (Some e1) s3) = Inl e"
    "calls is_complete_call (trace (snd (complete_from env mr expected_size (attempt + 1)
        (timeout * 2) (Some e1) s3))) = calls is_complete_call (trace s) + nat (mr - attempt) + 1"
    by simp_all
  show ?case
    using e1 poll ne lt rec
    by (simp add: complete_from_step[OF Suc.prems(2)])
qed


section \<open>The completion coordinator\<close>

text \<open>
  Claim C1. An attempt of the coordinator whose complete request fails with a read or
  connect timeout of the client does not send the request again at once: it sleeps the
  current timeout of the attempt, then polls \<^verbatim>\<open>head_object\<close>; when the poll returns
  the expected size, the coordinator returns normally. Of the whole call, the trace
  holds after the failed complete request that sleep, the \<^verbatim>\<open>head_object\<close> request
  and, if the poll itself had to retry, only further sleeps and \<^verbatim>\<open>head_object\<close>
  requests: the complete request is not sent again.
\<close>

theorem timeout_then_matching_poll_is_done:
  assumes "attempt \<le> mr"
    and "s3_complete_multipart_upload env (calls is_complete_call (trace s)) = Inl e"
    and "is_timeout_error e"
    and "call_with_524_retry_from mr (head_call env) 1
           (emit (Sleep timeout) (emit (CompleteCall timeout) s))
         = (Inr (Some (Some expected_size)), s')"
  shows "complete_from env mr expected_size attempt timeout last_exc s
           = (Inr (), s'\<lparr>client_timeout := Some timeout\<rparr>) \<and>
         (\<exists>rest. trace s' = trace s @ CompleteCall timeout # Sleep timeout # HeadCall # rest \<and>
                 set rest \<subseteq> insert HeadCall (range Sleep))"
proof -
  have run: "complete_from env mr expected_size attempt timeout last_exc s
           = (Inr (), s'\<lparr>client_timeout := Some timeout\<rparr>)"
    using assms(2-4) by (simp add: complete_from_step[OF assms(1)])
  have mr: "1 \<le> mr"
  proof (rule ccontr)
    assume "\<not> 1 \<le> mr"
    then have "mr < 1" by simp
    with assms(4) show False by (simp add: call_with_524_retry_from_done)
  qed
  from poll_facts[OF assms(4)] mr obtain ext where ext:
    "s' = (emit (Sleep timeout) (emit (CompleteCall timeout) s))
            \<lparr>trace := trace (emit (Sleep timeout) (emit (CompleteCall timeout) s)) @ ext\<rparr>"
    "set ext \<subseteq> insert HeadCall (range Sleep)" "ext \<noteq> []" "hd ext = HeadCall"
    by blast
  from ext(3,4) obtain rest where rest: "ext = HeadCall # rest"
    by (cases ext) auto
  have "trace s' = trace s @ CompleteCall timeout # Sleep timeout # HeadCall # rest"
    using ext(1) rest by (simp add: emit_def)
  moreover have "set rest \<subseteq> insert HeadCall (range Sleep)"
    using ext(2) rest by auto
  ultimately show ?thesis using run by blast
qed


theorem timeout_then_matching_poll_is_done_witness:
  "(1::int) \<le> 5 \<and>
   s3_complete_multipart_upload store_complete_times_out
     (calls is_complete_call (trace (started_uploader 52428800 5))) = Inl ReadTimeoutError \<and>
   is_timeout_error ReadTimeoutError \<and>
   call_with_524_retry_from 5 (head_call store_complete_times_out) 1
       (emit (Sleep 60) (emit (CompleteCall 60) (started_uploader 52428800 5)))
     = (Inr (Some (Some 105906176)),
        (started_uploader 52428800 5)\<lparr>trace := [CompleteCall 60, Sleep 60, HeadCall]\<rparr>) \<and>
   complete_from store_complete_times_out 5 105906176 1 60 None (started_uploader 52428800 5)
     = (Inr (),
        (started_uploader 52428800 5)\<lparr>client_timeout := Some 60,
           trace := [CompleteCall 60, Sleep 60, HeadCall]\<rparr>)"
  using timeout_then_matching_poll_is_done [of 1 5 store_complete_times_out
      "started_uploader 52428800 5" ReadTimeoutError 60 105906176
      "(started_uploader 52428800 5)\<lparr>trace := [CompleteCall 60, Sleep 60, HeadCall]\<rparr>" None]
  by (simp add: started_uploader_def new_uploader_def store_complete_times_out_def store_ok_def
      retry_eval complete_eval)


text \<open>
  Claim C3, as the code has it. When the complete request is answered with
  \<^verbatim>\<open>NoSuchUpload\<close>, the coordinator does not sleep: the \<^verbatim>\<open>head_object\<close> request follows
  the complete request directly. (Only the answer to the complete request is tested with
  \<^verbatim>\<open>is_no_such_upload_error\<close>; an answer \<^verbatim>\<open>NoSuchUpload\<close> to the poll is one more failed
  poll, see the run below.)
\<close>

theorem session_missing_on_complete_skips_wait:
  assumes "1 \<le> attempt" and "attempt \<le> mr"
    and "s3_complete_multipart_upload env (calls is_complete_call (trace s)) = Inl e"
    and "is_no_such_upload_error e"
  shows "\<exists>rest. trace (snd (complete_from env mr expected_size attempt timeout last_exc s))
           = trace s @ CompleteCall timeout # HeadCall # rest"
proof -
  from assms(4) obtain st where e: "e = ClientError st (Some ''NoSuchUpload'')"
    by (cases e) auto
  let ?s1 = "emit (CompleteCall timeout) s"
  obtain head s3 where poll: "call_with_524_retry_from mr (head_call env) 1 ?s1 = (head, s3)"
    by (cases "call_with_524_retry_from mr (head_call env) 1 ?s1") auto
  from assms(1,2) have "1 \<le> mr" by simp
  with poll_facts[OF poll] obtain ext where ext:
    "trace s3 = trace ?s1 @ ext" "ext \<noteq> []" "hd ext = HeadCall"
    by auto
  then obtain rest where "ext = HeadCall # rest" by (cases ext) auto
  with ext(1) have s3: "trace s3 = trace s @ CompleteCall timeout # HeadCall # rest"
    by (simp add: emit_def)
  from complete_from_extends[of env mr expected_size "attempt + 1" "timeout * 2" "Some e" s3]
  obtain ext2 where "trace (snd (complete_from env mr expected_size (attempt + 1) (timeout * 2)
      (Some e) s3)) = trace s3 @ ext2" by blast
  with s3 have rec: "\<exists>rest2. trace (snd (complete_from env mr expected_size (attempt + 1)
      (timeout * 2) (Some e) s3)) = trace s @ CompleteCall timeout # HeadCall # rest2"
    by simp
  show ?thesis
    using assms(3) e poll s3 rec
    by (simp add: complete_from_step[OF assms(2)])
qed


theorem session_missing_on_complete_skips_wait_witness:
  "(1::int) \<le> 1 \<and> (1::int) \<le> 5 \<and>
   s3_complete_multipart_upload store_session_missing
     (calls is_complete_call (trace (started_uploader 52428800 5)))
     = Inl (ClientError (Some 404) (Some ''NoSuchUpload'')) \<and>
   is_no_such_upload_error (ClientError (Some 404) (Some ''NoSuchUpload'')) \<and>
   trace (snd (complete_from store_session_missing 5 105906176 1 60 None
                 (started_uploader 52428800 5)))
     = [CompleteCall 60, HeadCall]"
  using session_missing_on_complete_skips_wait [of 1 5 store_session_missing
      "started_uploader 52428800 5" "ClientError (Some 404) (Some ''NoSuchUpload'')"
      105906176 60 None]
  by (simp add: started_uploader_def new_uploader_def store_session_missing_def store_ok_def
      retry_eval complete_eval)


text \<open>
  A run in which the first poll is answered with \<^verbatim>\<open>NoSuchUpload\<close>: the coordinator then
  sends the complete request again and sleeps 120 seconds before the next poll.
\<close>

theorem poll_session_missing_counterexample:
  "s3_head_object store_poll_session_missing 0
     = Inl (ClientError (Some 404) (Some ''NoSuchUpload'')) \<and>
   complete_with_timeout_retry store_poll_session_missing 60 105906176
       (started_uploader 52428800 2)
     = (Inl ReadTimeoutError,
        (started_uploader 52428800 2)\<lparr>trace :=
           [CompleteCall 60, Sleep 60, HeadCall, CompleteCall 120, Sleep 120, HeadCall]\<rparr>)"
  by (simp add: started_uploader_def new_uploader_def store_poll_session_missing_def store_ok_def
      retry_eval complete_eval)


lemma complete_from_error_is_last_answer:
  "complete_from env mr expected_size attempt timeout last_exc s = (Inl e, s') \<Longrightarrow>
   calls is_complete_call (trace s) < calls is_complete_call (trace s') \<and>
   s3_complete_multipart_upload env (calls is_complete_call (trace s') - 1) = Inl e"
proof (induction "nat (mr + 1 - attempt)" arbitrary: attempt timeout last_exc s)
  case 0
  then have "mr < attempt" by simp
  with 0 show ?case by (simp add: complete_from_done)
next
  case (Suc n)
  then have le: "attempt \<le> mr" and n: "n = nat (mr + 1 - (attempt + 1))" by auto
  let ?s1 = "emit (CompleteCall timeout) s"
  have c1: "calls is_complete_call (trace ?s1) = Suc (calls is_complete_call (trace s))"
    by (simp add: emit_def calls_def)
  show ?case
  proof (cases "s3_complete_multipart_upload env (calls is_complete_call (trace s))")
    case (Inr u)
    with Suc.prems show ?thesis by (simp add: complete_from_step[OF le])
  next
    case (Inl e1)
    show ?thesis
    proof (cases "is_timeout_error e1 \<or> is_client_error e1 \<or> is_botocore_error e1")
      case False
      with Inl Suc.prems have "e = e1" "s' = ?s1"
        by (auto simp: complete_from_step[OF le])
      with Inl c1 show ?thesis by simp
    next
      case True
      let ?s2 = "if \<not> is_timeout_error e1 \<and> is_no_such_upload_error e1 then ?s1
                 else emit (Sleep timeout) ?s1"
      obtain head s3 where poll: "call_with_524_retry_from mr (head_call env) 1 ?s2 = (head, s3)"
        by (cases "call_with_524_retry_from mr (head_call env) 1 ?s2") auto
      from poll_facts[OF poll] obtain ext where ext: "trace s3 = trace ?s2 @ ext"
        "set ext \<subseteq> insert HeadCall (range Sleep)" by auto
      have cnt: "calls is_complete_call (trace s3) = Suc (calls is_complete_call (trace s))"
        using ext(1) no_complete_in_poll[OF ext(2)] by (simp add: emit_def calls_def)
      consider (stop) "e = e1" "s' = s3"
        | (retry) "complete_from env mr expected_size (attempt + 1) (timeout * 2) (Some e1) s3
                     = (Inl e, s')"
        using Suc.prems Inl True poll
        by (auto simp: complete_from_step[OF le] exhausted_error_def split: if_splits)
      then show ?thesis
      proof cases
        case stop
        with Inl cnt show ?thesis by simp
      next
        case retry
        from Suc.hyps(1)[OF n retry] cnt show ?thesis by simp
      qed
    qed
  qed
qed

text \<open>
  Claim C4, as the code has it, for a coordinator with a session (\<^verbatim>\<open>upload_id\<close> set).
  With \<^verbatim>\<open>max_retries \<le> 0\<close> the loop does not run: the coordinator sends nothing and
  returns normally, with no error at all. Every error the coordinator raises is the error
  that its last complete request raised, so the \<^verbatim>\<open>RuntimeError\<close> of
  \<^verbatim>\<open>last_exc if last_exc else RuntimeError(...)\<close> is never the one raised. With
  \<^verbatim>\<open>max_retries \<ge> 1\<close>, when every complete request fails with an error the coordinator
  catches and no poll returns the expected size, the coordinator sends \<^verbatim>\<open>max_retries\<close>
  complete requests and raises the error of the last of them (a timeout, when they time
  out).
\<close>

theorem exhausted_retries_raise_last_complete_error:
  assumes "upload_id s \<noteq> None"
  shows "(max_retries s \<le> 0 \<longrightarrow>
            complete_with_timeout_retry env initial_timeout expected_size s = (Inr (), s)) \<and>
         (\<forall>e s'. complete_with_timeout_retry env initial_timeout expected_size s = (Inl e, s') \<longrightarrow>
            calls is_complete_call (trace s) < calls is_complete_call (trace s') \<and>
            s3_complete_multipart_upload env (calls is_complete_call (trace s') - 1) = Inl e) \<and>
         (1 \<le> max_retries s \<and>
          (\<forall>k. \<exists>e. s3_complete_multipart_upload env k = Inl e \<and>
                  (is_timeout_error e \<or> is_client_error e \<or> is_botocore_error e)) \<and>
          (\<forall>k. s3_head_object env k \<noteq> Inr (Some expected_size)) \<longrightarrow>
            (\<exists>e. fst (complete_with_timeout_retry env initial_timeout expected_size s) = Inl e \<and>
                 s3_complete_multipart_upload env
                   (calls is_complete_call (trace s) + nat (max_retries s - 1)) = Inl e) \<and>
            calls is_complete_call
                (trace (snd (complete_with_timeout_retry env initial_timeout expected_size s)))
              = calls is_complete_call (trace s) + nat (max_retries s))"
proof (intro conjI impI allI)
  assume "max_retries s \<le> 0"
  then have "max_retries s < 1" by simp
  with assms show "complete_with_timeout_retry env initial_timeout expected_size s = (Inr (), s)"
    by (simp add: complete_with_timeout_retry_def complete_from_done)
next
  fix e s'
  assume "complete_with_timeout_retry env initial_timeout expected_size s = (Inl e, s')"
  with assms have run: "complete_from env (max_retries s) expected_size 1 initial_timeout None s
      = (Inl e, s')"
    by (auto simp: complete_with_timeout_retry_def)
  from complete_from_error_is_last_answer[OF run]
  show "calls is_complete_call (trace s) < calls is_complete_call (trace s')"
    and "s3_complete_multipart_upload env (calls is_complete_call (trace s') - 1) = Inl e"
    by simp_all
next
  assume h: "1 \<le> max_retries s \<and>
          (\<forall>k. \<exists>e. s3_complete_multipart_upload env k = Inl e \<and>
                  (is_timeout_error e \<or> is_client_error e \<or> is_botocore_error e)) \<and>
          (\<forall>k. s3_head_object env k \<noteq> Inr (Some expected_size))"
  then obtain e where e: "s3_complete_multipart_upload env
      (calls is_complete_call (trace s) + nat (max_retries s - 1)) = Inl e" by blast
  have one: "(1::int) \<le> 1" by simp
  have f: "\<And>k. \<exists>e. s3_complete_multipart_upload env k = Inl e \<and>
                  (is_timeout_error e \<or> is_client_error e \<or> is_botocore_error e)"
    using h by blast
  have m: "\<And>k. s3_head_object env k \<noteq> Inr (Some expected_size)" using h by blast
  from h have mr: "1 \<le> max_retries s" by simp
  from complete_from_exhausts[of env expected_size 1 "max_retries s" s e initial_timeout None,
      OF f m one mr e] assms mr
  have r: "fst (complete_with_timeout_retry env initial_timeout expected_size s) = Inl e"
    "calls is_complete_call
                (trace (snd (complete_with_timeout_retry env initial_timeout expected_size s)))
              = calls is_complete_call (trace s) + nat (max_retries s)"
    by (auto simp: complete_with_timeout_retry_def nat_diff_distrib)
  from r(1) e show "\<exists>e. fst (complete_with_timeout_retry env initial_timeout expected_size s) = Inl e \<and>
                 s3_complete_multipart_upload env
                   (calls is_complete_call (trace s) + nat (max_retries s - 1)) = Inl e"
    by blast
  from r(2) show "calls is_complete_call
                (trace (snd (complete_with_timeout_retry env initial_timeout expected_size s)))
              = calls is_complete_call (trace s) + nat (max_retries s)" .
qed

theorem exhausted_retries_raise_last_complete_error_witness:
  "upload_id (started_uploader 52428800 (- 1)) \<noteq> None \<and>
   max_retries (started_uploader 52428800 (- 1)) \<le> 0 \<and>
   complete_with_timeout_retry store_never_merges 60 105906176 (started_uploader 52428800 (- 1))
     = (Inr (), started_uploader 52428800 (- 1)) \<and>
   upload_id (started_uploader 52428800 3) \<noteq> None \<and>
   1 \<le> max_retries (started_uploader 52428800 3) \<and>
   (\<forall>k. s3_complete_multipart_upload store_never_merges k = Inl ReadTimeoutError) \<and>
   (\<forall>k. s3_head_object store_never_merges k \<noteq> Inr (Some 105906176)) \<and>
   complete_with_timeout_retry store_never_merges 60 105906176 (started_uploader 52428800 3)
     = (Inl ReadTimeoutError,
        (started_uploader 52428800 3)\<lparr>trace :=
           [CompleteCall 60, Sleep 60, HeadCall, CompleteCall 120, Sleep 120, HeadCall,
            CompleteCall 240, Sleep 240, HeadCall]\<rparr>) \<and>
   s3_complete_multipart_upload store_never_merges 2 = Inl ReadTimeoutError"
  using exhausted_retries_raise_last_complete_error [of "started_uploader 52428800 (- 1)"
      store_never_merges 60 105906176]
    exhausted_retries_raise_last_complete_error [of "started_uploader 52428800 3"
      store_never_merges 60 105906176]
  by (simp add: started_uploader_def new_uploader_def store_never_merges_def store_ok_def
      retry_eval complete_eval)


text \<open>
  The coordinator with \<^verbatim>\<open>max_retries = 0\<close>, on a store whose complete requests all time
  out and whose object stays empty: no attempt is left, none has succeeded, and nothing
  is raised.
\<close>

theorem zero_attempts_return_normally_counterexample:
  "upload_id (started_uploader 52428800 0) \<noteq> None \<and>
   max_retries (started_uploader 52428800 0) = 0 \<and>
   complete_with_timeout_retry store_never_merges 60 105906176 (started_uploader 52428800 0)
     = (Inr (), started_uploader 52428800 0)"
  by (simp add: started_uploader_def new_uploader_def complete_with_timeout_retry_def
      complete_from_done)

section \<open>Part upload\<close>

text \<open>
  Claim C5. In any attempt of the retry loop of \<^verbatim>\<open>upload_part\<close>, whatever the number
  of attempts left, a 507 Insufficient Storage answer makes \<^verbatim>\<open>upload_part\<close> raise in
  that attempt: the request of the attempt is the last event, with no sleep and no
  further request after it.
\<close>

theorem storage_full_is_fatal_at_once:
  assumes "attempt \<le> mr"
    and "s3_upload_part env part_number (calls (is_upload_part_call part_number) (trace s)) = Inl e"
    and "is_insufficient_storage_error e"
  shows "upload_part_from env mr part_number offset bytes_to_read tp attempt s =
           (Inl (RuntimeError InsufficientStorage),
            emit (UploadPartCall part_number offset bytes_to_read) s)"
proof -
  from assms(3) obtain code where "e = ClientError (Some 507) code"
    by (cases e) auto
  with assms(1,2) show ?thesis
    by (simp add: upload_part_from_step)
qed


theorem storage_full_is_fatal_at_once_witness:
  "(3::int) \<le> 5 \<and>
   s3_upload_part store_full 2
     (calls (is_upload_part_call 2)
        [UploadPartCall 2 52428800 52428800, Sleep 2,
         UploadPartCall 2 52428800 52428800, Sleep 4])
     = Inl (ClientError (Some 507) None) \<and>
   is_insufficient_storage_error (ClientError (Some 507) None) \<and>
   upload_part_from store_full 5 2 52428800 52428800 3 3
       ((started_uploader 52428800 5)\<lparr>trace :=
          [UploadPartCall 2 52428800 52428800, Sleep 2,
           UploadPartCall 2 52428800 52428800, Sleep 4]\<rparr>)
     = (Inl (RuntimeError InsufficientStorage),
        (started_uploader 52428800 5)\<lparr>trace :=
          [UploadPartCall 2 52428800 52428800, Sleep 2,
           UploadPartCall 2 52428800 52428800, Sleep 4,
           UploadPartCall 2 52428800 52428800]\<rparr>)"
  using storage_full_is_fatal_at_once [of 3 5 store_full 2
      "(started_uploader 52428800 5)\<lparr>trace :=
          [UploadPartCall 2 52428800 52428800, Sleep 2,
           UploadPartCall 2 52428800 52428800, Sleep 4]\<rparr>"
      "ClientError (Some 507) None" 52428800 52428800 3]
  by (simp add: started_uploader_def new_uploader_def store_full_def store_ok_def emit_def calls_def)

text \<open>The whole call for that part: two 524 answers, each with its backoff, then 507.\<close>

lemma upload_part_full_run:
  "upload_part store_full 2 52428800 52428800 3 (started_uploader 52428800 5) =
     (Inl (RuntimeError InsufficientStorage),
      (started_uploader 52428800 5)\<lparr>trace :=
         [UploadPartCall 2 52428800 52428800, Sleep 2,
          UploadPartCall 2 52428800 52428800, Sleep 4,
          UploadPartCall 2 52428800 52428800]\<rparr>)"
  by (simp add: started_uploader_def new_uploader_def store_full_def store_ok_def retry_eval part_eval)

text \<open>
  Claim C10. With \<^verbatim>\<open>max_retries \<le> 0\<close> the retry loops of \<^verbatim>\<open>call_with_524_retry\<close> and of
  \<^verbatim>\<open>upload_part\<close> do not run: the store operation is not called (the uploader and its
  trace are unchanged, whatever \<open>func\<close> is), nothing is raised and the result is
  \<^verbatim>\<open>None\<close>. This holds for the loop of \<^verbatim>\<open>upload_part\<close> (\<open>upload_part_from\<close> at attempt
  1), and so for \<^verbatim>\<open>upload_part\<close> itself once its check of \<^verbatim>\<open>upload_id\<close> in front of the
  loop is passed.
\<close>

theorem retry_loops_run_zero_times:
  assumes "max_retries s \<le> 0"
  shows "call_with_524_retry func s = (Inr None, s) \<and>
         upload_part_from env (max_retries s) part_number offset bytes_to_read tp 1 s
           = (Inr None, s) \<and>
         (upload_id s \<noteq> None \<longrightarrow>
            upload_part env part_number offset bytes_to_read tp s = (Inr None, s))"
  using assms
  by (simp add: call_with_524_retry_def upload_part_def call_with_524_retry_from_done
      upload_part_from_done)


theorem retry_loops_run_zero_times_witness:
  "max_retries (started_uploader 52428800 0) \<le> 0 \<and>
   upload_id (started_uploader 52428800 0) \<noteq> None \<and>
   call_with_524_retry (head_call store_ok) (started_uploader 52428800 0)
     = (Inr None, started_uploader 52428800 0) \<and>
   upload_part store_ok 1 0 52428800 3 (started_uploader 52428800 0)
     = (Inr None, started_uploader 52428800 0)"
  using retry_loops_run_zero_times [of "started_uploader 52428800 0" "head_call store_ok"
      store_ok 1 0 52428800 3]
  by (simp add: started_uploader_def new_uploader_def store_ok_def)


section \<open>The rounding of the division\<close>

text \<open>
  What the float model guarantees: the exponent found bounds the quotient from below,
  no quotient of a file size overflows, and below \<open>2 ^ 53\<close> the ceiling of the rounded
  quotient is the ceiling of the exact one, \<open>- ((- a) div b)\<close>.
\<close>

lemma bit_length_pos: "0 < n \<Longrightarrow> 0 < bit_length n"
  by (subst bit_length.simps) simp

lemma bit_length_bounds:
  "0 < n \<Longrightarrow> 2 ^ (bit_length n - 1) \<le> n \<and> n < 2 ^ bit_length n"
proof (induction n rule: bit_length.induct)
  case (1 n)
  show ?case
  proof (cases "n div 2 = 0")
    case True
    with "1.prems" have "n = 1" by presburger
    then show ?thesis by (simp add: bit_length_1)
  next
    case False
    with "1.prems" have pos: "0 < n div 2" by presburger
    from "1.prems" have np: "\<not> n \<le> 0" by simp
    from "1.IH"[OF np pos] have ih: "2 ^ (bit_length (n div 2) - 1) \<le> n div 2"
      "n div 2 < 2 ^ bit_length (n div 2)" by simp_all
    have bl: "bit_length n = Suc (bit_length (n div 2))"
      using np by (subst bit_length.simps) simp
    from bit_length_pos[OF pos] obtain j where j: "bit_length (n div 2) = Suc j"
      by (cases "bit_length (n div 2)") auto
    from ih j have "2 * 2 ^ j \<le> 2 * (n div 2)" by simp
    also have "\<dots> \<le> n" by presburger
    finally have lo: "2 ^ (bit_length n - 1) \<le> n" using bl j by simp
    have "n < 2 * (n div 2 + 1)" by presburger
    also have "\<dots> \<le> 2 * 2 ^ bit_length (n div 2)" using ih(2) by simp
    finally have "n < 2 ^ bit_length n" using bl by simp
    with lo show ?thesis by simp
  qed
qed

lemma bit_length_le: "0 < n \<Longrightarrow> n < 2 ^ m \<Longrightarrow> bit_length n \<le> m"
proof (rule ccontr)
  assume n: "0 < n" "n < 2 ^ m" and "\<not> bit_length n \<le> m"
  then have "m \<le> bit_length n - 1" by simp
  then have "(2::int) ^ m \<le> 2 ^ (bit_length n - 1)" by (intro power_increasing) simp_all
  also have "\<dots> \<le> n" using bit_length_bounds[OF n(1)] by simp
  finally show False using n(2) by linarith
qed

lemma quot_exponent_le:
  assumes "0 < n" "0 < d"
  shows "quot_exponent n d \<le> int (bit_length n) - 1"
proof -
  from bit_length_pos[OF assms(2)] have "1 \<le> int (bit_length d)" by simp
  then show ?thesis by (simp add: quot_exponent_def Let_def)
qed

lemma quot_exponent_ge:
  assumes "0 < n" "0 < d"
  shows "int (bit_length n) - int (bit_length d) - 1 \<le> quot_exponent n d"
  by (simp add: quot_exponent_def Let_def)

text \<open>The quotient is at least \<open>2 ^ k\<close> for the exponent \<open>k\<close> found.\<close>
lemma quot_exponent_lower:
  assumes n: "0 < n" and d: "0 < d"
  shows "scaled_le d (quot_exponent n d) n"
proof -
  let ?bn = "bit_length n" and ?bd = "bit_length d"
  let ?k = "int ?bn - int ?bd"
  show ?thesis
  proof (cases "scaled_le d ?k n")
    case True
    then show ?thesis by (simp add: quot_exponent_def Let_def)
  next
    case False
    then have q: "quot_exponent n d = ?k - 1" by (simp add: quot_exponent_def Let_def)
    from bit_length_bounds[OF n] have bn: "2 ^ (?bn - 1) \<le> n" by simp
    from bit_length_bounds[OF d] have bd: "d < 2 ^ ?bd" by simp
    from bit_length_pos[OF n] have bnp: "0 < ?bn" .
    show ?thesis
    proof (cases "0 \<le> ?k - 1")
      case True
      then have le: "?bd + 1 \<le> ?bn" by simp
      then have nk: "nat (?k - 1) = ?bn - 1 - ?bd" by simp
      have "d * 2 ^ (?bn - 1 - ?bd) \<le> 2 ^ ?bd * 2 ^ (?bn - 1 - ?bd)"
        using bd by (intro mult_right_mono) simp_all
      also have "\<dots> = 2 ^ (?bd + (?bn - 1 - ?bd))" by (simp add: power_add)
      also have "?bd + (?bn - 1 - ?bd) = ?bn - 1" using le by simp
      finally have "d * 2 ^ (?bn - 1 - ?bd) \<le> n" using bn by simp
      with True nk q show ?thesis by (simp add: scaled_le_def)
    next
      case False
      then have lt: "?bn \<le> ?bd" by simp
      then have nk: "nat (- (?k - 1)) = ?bd - ?bn + 1" by simp
      have "d \<le> 2 ^ ?bd" using bd by simp
      also have "?bd = (?bn - 1) + (?bd - ?bn + 1)" using lt bnp by simp
      also have "(2::int) ^ \<dots> = 2 ^ (?bn - 1) * 2 ^ (?bd - ?bn + 1)" by (simp only: power_add)
      also have "\<dots> \<le> n * 2 ^ (?bd - ?bn + 1)"
        using bn by (intro mult_right_mono) simp_all
      finally have "d \<le> n * 2 ^ (?bd - ?bn + 1)" .
      with False nk q show ?thesis by (simp add: scaled_le_def)
    qed
  qed
qed

lemma ceil_div_bounds:
  fixes x d :: int
  assumes "0 < d"
  shows "(- ((- x) div d) - 1) * d < x \<and> x \<le> - ((- x) div d) * d"
proof -
  define q where "q = (- x) div d"
  define r where "r = (- x) mod d"
  have "d * q + r = - x" unfolding q_def r_def by simp
  then have x: "x = - (d * q) - r" by simp
  have r: "0 \<le> r" "r < d" using assms by (simp_all add: r_def)
  have "(- q - 1) * d < x \<and> x \<le> - q * d"
    using r by (simp add: x algebra_simps)
  then show ?thesis by (simp add: q_def)
qed

lemma ceil_div_unique:
  fixes x d c :: int
  assumes "0 < d" "(c - 1) * d < x" "x \<le> c * d"
  shows "- ((- x) div d) = c"
proof -
  have "(- x) div d = - c"
  proof (rule int_div_pos_eq[where r = "c * d - x"])
    show "- x = d * - c + (c * d - x)" by (simp add: algebra_simps)
    show "0 \<le> c * d - x" using assms(3) by simp
    show "c * d - x < d" using assms(2) by (simp add: algebra_simps)
  qed
  then show ?thesis by simp
qed

lemma rne_div_upper:
  assumes "0 < d" "N \<le> K * d"
  shows "rne_div N d \<le> K"
proof -
  let ?q = "N div d" and ?r = "N mod d"
  have N: "N = ?q * d + ?r" by simp
  have r: "0 \<le> ?r" "?r < d" using assms(1) by simp_all
  have "?q \<le> (K * d) div d" using assms by (intro zdiv_mono1) simp_all
  then have qK: "?q \<le> K" using assms(1) by simp
  show ?thesis
  proof (cases "?q = K")
    case True
    with N assms(2) have "?r \<le> 0" by (metis add_le_same_cancel1)
    with r have "?r = 0" by simp
    with True assms(1) show ?thesis by (simp add: rne_div_def Let_def)
  next
    case False
    with qK have "?q + 1 \<le> K" by simp
    then show ?thesis by (simp add: rne_div_def Let_def)
  qed
qed

lemma rne_div_lower:
  assumes "0 < d" "K * d + h \<le> N" "d < 2 * h"
  shows "K + 1 \<le> rne_div N d"
proof -
  let ?q = "N div d" and ?r = "N mod d"
  have N: "N = ?q * d + ?r" by simp
  have r: "0 \<le> ?r" "?r < d" using assms(1) by simp_all
  have h: "0 < h" using assms(1,3) by simp
  have "(K * d) div d \<le> ?q" using assms h by (intro zdiv_mono1) simp_all
  then have Kq: "K \<le> ?q" using assms(1) by simp
  show ?thesis
  proof (cases "?q = K")
    case True
    with N assms(2) have "h \<le> ?r" by (metis add_le_cancel_left)
    with assms(3) have "d < 2 * ?r" by simp
    with True show ?thesis by (simp add: rne_div_def Let_def)
  next
    case False
    with Kq have "K + 1 \<le> ?q" by simp
    then show ?thesis by (simp add: rne_div_def Let_def)
  qed
qed

lemma rne_div_one: "rne_div n 1 = n"
  by (simp add: rne_div_def)

lemma total_parts_exact:
  assumes a: "0 \<le> a" "a < 2 ^ 53" and b: "0 < b" "b < 2 ^ 1022"
  shows "total_parts a b = Inr (- ((- a) div b))"
proof (cases "a = 0")
  case True
  with b show ?thesis by (simp add: total_parts_def py_int_truediv_def)
next
  case False
  with a have ap: "0 < a" by simp
  let ?k = "quot_exponent a b"
  let ?c = "- ((- a) div b)"
  from bit_length_le[OF ap a(2)] quot_exponent_le[OF ap b(1)] have k_hi: "?k \<le> 52" by simp
  from bit_length_le[OF b] bit_length_pos[OF ap] quot_exponent_ge[OF ap b(1)]
  have k_lo: "- 1022 \<le> ?k" by simp
  have e: "max (?k - 52) (- 1074) = ?k - 52" using k_lo by simp
  have low: "scaled_le b ?k a" by (rule quot_exponent_lower[OF ap b(1)])
  have sg: "sgn a * sgn b = 1" using ap b(1) by simp
  have ab: "\<bar>a\<bar> = a" "\<bar>b\<bar> = b" using ap b(1) by simp_all
  show ?thesis
  proof (cases "?k = 52")
    case True
    with low have "b * 2 ^ 52 \<le> a" by (simp add: scaled_le_def)
    with a(2) b(1) have "b = 1" by simp
    with True ap show ?thesis
      by (simp add: total_parts_def py_int_truediv_def Let_def rne_div_one)
  next
    case False
    with k_hi have lt: "?k < 52" by simp
    define s where "s = nat (52 - ?k)"
    have s: "0 < s" "int s = 52 - ?k" using lt by (simp_all add: s_def)
    have bs: "b < 2 * 2 ^ s"
    proof (cases "0 \<le> ?k")
      case True
      with low have "b * 2 ^ nat ?k \<le> a" by (simp add: scaled_le_def)
      also have "a < 2 ^ 53" by (rule a(2))
      also have "(53::nat) = (s + 1) + nat ?k" using True s(2) by simp
      finally have "b * 2 ^ nat ?k < 2 ^ (s + 1) * 2 ^ nat ?k" by (simp only: power_add)
      then show ?thesis by simp
    next
      case False
      with low have "b \<le> a * 2 ^ nat (- ?k)" by (simp add: scaled_le_def)
      also have "\<dots> < 2 ^ 53 * 2 ^ nat (- ?k)" using a(2) by simp
      also have "\<dots> = 2 ^ (53 + nat (- ?k))" by (simp only: power_add)
      also have "53 + nat (- ?k) = s + 1" using False s(2) by simp
      finally show ?thesis by simp
    qed
    let ?m = "rne_div (a * 2 ^ s) b"
    from ceil_div_bounds[OF b(1), of a] have c: "(?c - 1) * b < a" "a \<le> ?c * b" by simp_all
    have "a * 2 ^ s \<le> (?c * b) * 2 ^ s" using c(2) by (intro mult_right_mono) simp_all
    then have "a * 2 ^ s \<le> (?c * 2 ^ s) * b" by (simp add: mult.assoc mult.commute mult.left_commute)
    from rne_div_upper[OF b(1) this] have up: "?m \<le> ?c * 2 ^ s" .
    have "(?c - 1) * b + 1 \<le> a" using c(1) by simp
    then have "((?c - 1) * b + 1) * 2 ^ s \<le> a * 2 ^ s" by (intro mult_right_mono) simp_all
    then have "((?c - 1) * 2 ^ s) * b + 2 ^ s \<le> a * 2 ^ s" by (simp add: algebra_simps)
    from rne_div_lower[OF b(1) this bs] have lo: "(?c - 1) * 2 ^ s < ?m" by simp
    have "- ((- ?m) div 2 ^ s) = ?c"
      by (rule ceil_div_unique[OF _ lo up]) simp
    moreover have "py_int_truediv a b = Inr (Double ?m (- int s))"
      using ap b(1) lt k_lo s sg by (simp add: py_int_truediv_def Let_def s_def)
    ultimately show ?thesis using s(1) by (simp add: total_parts_def)
  qed
qed

lemma py_int_truediv_no_overflow:
  assumes "b \<noteq> 0" and "\<bar>a\<bar> < 2 ^ 1023"
  shows "\<exists>q. py_int_truediv a b = Inr q"
proof (cases "a = 0")
  case True
  with assms(1) show ?thesis by (simp add: py_int_truediv_def)
next
  case False
  then have n: "0 < \<bar>a\<bar>" by simp
  from assms(1) have d: "0 < \<bar>b\<bar>" by simp
  from quot_exponent_le[OF n d] bit_length_le[OF n assms(2)]
  have "quot_exponent \<bar>a\<bar> \<bar>b\<bar> \<le> 1022" by simp
  then have "max (quot_exponent \<bar>a\<bar> \<bar>b\<bar> - 52) (- 1074) \<le> 970" by simp
  then have "\<not> 971 \<le> max (quot_exponent \<bar>a\<bar> \<bar>b\<bar> - 52) (- 1074)" by linarith
  then have "\<not> 972 \<le> max (quot_exponent \<bar>a\<bar> \<bar>b\<bar> - 52) (- 1074)"
    "max (quot_exponent \<bar>a\<bar> \<bar>b\<bar> - 52) (- 1074) \<noteq> 971" by linarith+
  with False assms(1) show ?thesis
    by (simp add: py_int_truediv_def Let_def del: max.bounded_iff)
qed

lemma total_parts_no_overflow:
  assumes "b \<noteq> 0" and "\<bar>a\<bar> < 2 ^ 1023"
  shows "\<exists>tp. total_parts a b = Inr tp"
  using py_int_truediv_no_overflow[OF assms] by (auto simp: total_parts_def)

lemma completion_timeout_no_overflow:
  assumes "\<bar>a\<bar> < 2 ^ 1023"
  shows "\<exists>t. completion_timeout a = Inr t"
  using py_int_truediv_no_overflow[of 1 a] assms
  by (auto simp: completion_timeout_def py_float_def)

lemma quot_exponent_one:
  assumes "0 < a"
  shows "quot_exponent a 1 = int (bit_length a) - 1"
proof -
  from bit_length_pos[OF assms] have "0 \<le> int (bit_length a) - 1" by simp
  moreover have "nat (int (bit_length a) - 1) = bit_length a - 1" by simp
  ultimately have "scaled_le 1 (int (bit_length a) - 1) a"
    using bit_length_bounds[OF assms] by (simp add: scaled_le_def)
  then show ?thesis by (simp add: quot_exponent_def bit_length_1)
qed

lemma ceil_div_scale:
  fixes x :: int
  shows "- ((- (x * 2 ^ s)) div (2 ^ (s + j))) = - ((- x) div 2 ^ j)"
proof -
  have "(- (x * 2 ^ s)) div (2 ^ (s + j)) = ((- x) * 2 ^ s) div (2 ^ j * 2 ^ s)"
    by (simp add: power_add mult.commute)
  also have "\<dots> = (- x) div 2 ^ j"
    by (rule div_mult_mult2) simp
  finally show ?thesis by simp
qed

lemma completion_timeout_exact:
  assumes "0 \<le> a" "a \<le> 2 ^ 53"
  shows "completion_timeout a = Inr (max 60 (- ((- a) div 2 ^ 30) * 5))"
proof -
  consider "a = 0" | "a = 2 ^ 53" | "0 < a" "a < 2 ^ 53" using assms by linarith
  then show ?thesis
  proof cases
    case 1
    then show ?thesis by (simp add: truediv_eval)
  next
    case 2
    then show ?thesis by (simp add: truediv_eval)
  next
    case 3
    let ?k = "int (bit_length a) - 1"
    from bit_length_le[OF 3] have k: "?k \<le> 52" by simp
    from bit_length_pos[OF 3(1)] have k0: "0 \<le> ?k" by simp
    have q: "quot_exponent a 1 = ?k" by (rule quot_exponent_one[OF 3(1)])
    have e: "max (?k - 52) (- 1074) = ?k - 52" using k0 by simp
    show ?thesis
    proof (cases "?k = 52")
      case True
      with 3(1) q show ?thesis
        by (simp add: completion_timeout_def py_float_def py_int_truediv_def Let_def rne_div_one)
    next
      case False
      with k have lt: "?k < 52" by simp
      define s where "s = nat (52 - ?k)"
      have s: "0 < s" "int s = 52 - ?k" using lt by (simp_all add: s_def)
      have "py_int_truediv a 1 = Inr (Double (a * 2 ^ s) (- int s))"
        using 3(1) q lt k0 s by (simp add: py_int_truediv_def Let_def rne_div_one s_def)
      moreover have "py_ceil (Double (a * 2 ^ s) (- int s - 30)) = - ((- a) div 2 ^ 30)"
        using ceil_div_scale[of a s 30] by (simp add: nat_add_distrib add.commute)
      ultimately show ?thesis
        by (simp add: completion_timeout_def py_float_def)
    qed
  qed
qed

lemma total_parts_negative_example: "total_parts 105906176 (- 50) = Inr (- 2118123)"
  by (simp add: truediv_eval)

lemma total_parts_example: "total_parts 105906176 52428800 = Inr 3"
  by (simp add: truediv_eval)

lemma completion_timeout_example: "completion_timeout 105906176 = Inr 60"
  by (simp add: truediv_eval)

section \<open>What each phase adds to the trace\<close>

lemma retry_store_call_frame:
  assumes "P ev" "\<And>t. \<not> P (Sleep t)"
    and "call_with_524_retry_from mr (store_call P ev answers) attempt s = (r, s')"
  shows "\<exists>ext. s' = s\<lparr>trace := trace s @ ext\<rparr> \<and> (\<forall>x\<in>set ext. x = ev \<or> is_sleep x)"
proof -
  from retry_store_call[OF assms] obtain ext where
    "s' = s\<lparr>trace := trace s @ ext\<rparr>" "set ext \<subseteq> insert ev (range Sleep)" by blast
  then show ?thesis by (intro exI[of _ ext]) auto
qed

lemma upload_part_from_frame:
  "upload_part_from env mr part_number offset bytes_to_read tp attempt s = (r, s') \<Longrightarrow>
   \<exists>ext. s' = s\<lparr>trace := trace s @ ext\<rparr> \<and>
         (\<forall>x\<in>set ext. is_upload_part_call part_number x \<or> is_sleep x)"
proof (induction "nat (mr + 1 - attempt)" arbitrary: attempt s r s')
  case 0
  then have "mr < attempt" by simp
  with 0 show ?case
    by (auto simp: upload_part_from_done intro!: exI[of _ "[]"])
next
  case (Suc n)
  then have le: "attempt \<le> mr" and n: "n = nat (mr + 1 - (attempt + 1))" by auto
  let ?ev = "UploadPartCall part_number offset bytes_to_read"
  let ?s1 = "emit ?ev s"
  let ?s2 = "emit (Sleep (2 ^ nat attempt)) ?s1"
  consider (stop) "s' = ?s1"
    | (retry) "upload_part_from env mr part_number offset bytes_to_read tp (attempt + 1) ?s2 = (r, s')"
    using Suc.prems
    by (auto simp: upload_part_from_step[OF le] Let_def split: sum.splits if_splits)
  then show ?case
  proof cases
    case stop
    then show ?thesis by (auto simp: emit_def intro!: exI[of _ "[?ev]"])
  next
    case retry
    from Suc.hyps(1)[OF n retry] obtain ext where ext:
      "s' = ?s2\<lparr>trace := trace ?s2 @ ext\<rparr>"
      "\<forall>x\<in>set ext. is_upload_part_call part_number x \<or> is_sleep x" by blast
    then show ?thesis
      by (intro exI[of _ "?ev # Sleep (2 ^ nat attempt) # ext"]) (simp add: emit_def)
  qed
qed

lemma upload_part_frame:
  assumes "upload_part env part_number offset bytes_to_read tp s = (r, s')"
  shows "\<exists>ext. s' = s\<lparr>trace := trace s @ ext\<rparr> \<and> (\<forall>x\<in>set ext. is_part_phase_event x)"
proof (cases "upload_id s = None")
  case True
  with assms show ?thesis by (auto simp: upload_part_def intro!: exI[of _ "[]"])
next
  case False
  with assms have "upload_part_from env (max_retries s) part_number offset bytes_to_read tp 1 s = (r, s')"
    by (simp add: upload_part_def)
  from upload_part_from_frame[OF this] obtain ext where
    ext: "s' = s\<lparr>trace := trace s @ ext\<rparr>"
      "\<forall>x\<in>set ext. is_upload_part_call part_number x \<or> is_sleep x" by blast
  have "\<forall>x\<in>set ext. is_part_phase_event x"
  proof
    fix x assume "x \<in> set ext"
    with ext(2) have "is_upload_part_call part_number x \<or> is_sleep x" by blast
    then show "is_part_phase_event x" by (cases x) auto
  qed
  with ext(1) show ?thesis by blast
qed

lemma upload_parts_frame:
  "upload_parts env file_size tp ps s = (rs, s') \<Longrightarrow>
   \<exists>ext. s' = s\<lparr>trace := trace s @ ext\<rparr> \<and> (\<forall>x\<in>set ext. is_part_phase_event x)"
proof (induction ps arbitrary: s rs s')
  case Nil
  then show ?case by (auto intro!: exI[of _ "[]"])
next
  case (Cons p ps)
  obtain r s1 where r: "upload_part env p (chunk_offset (part_size s) p)
      (chunk_size file_size (part_size s) p) tp s = (r, s1)"
    by (cases "upload_part env p (chunk_offset (part_size s) p)
      (chunk_size file_size (part_size s) p) tp s") auto
  obtain rs' s2 where rs': "upload_parts env file_size tp ps s1 = (rs', s2)"
    by (cases "upload_parts env file_size tp ps s1") auto
  from Cons.prems r rs' have s': "s' = s2" by simp
  from upload_part_frame[OF r] obtain e1 where e1:
    "s1 = s\<lparr>trace := trace s @ e1\<rparr>" "\<forall>x\<in>set e1. is_part_phase_event x" by blast
  from Cons.IH[OF rs'] obtain e2 where e2:
    "s2 = s1\<lparr>trace := trace s1 @ e2\<rparr>" "\<forall>x\<in>set e2. is_part_phase_event x" by blast
  show ?case
    using s' e1 e2 by (intro exI[of _ "e1 @ e2"]) auto
qed

lemma poll_frame:
  assumes "call_with_524_retry_from mr (head_call env) attempt s = (r, s')"
  shows "\<exists>ext. s' = s\<lparr>trace := trace s @ ext\<rparr> \<and> (\<forall>x\<in>set ext. x = HeadCall \<or> is_sleep x)"
  using assms unfolding head_call_def by (intro retry_store_call_frame) simp_all

lemma complete_from_frame:
  "complete_from env mr expected_size attempt timeout last_exc s = (r, s') \<Longrightarrow>
   \<exists>ext ct. s' = s\<lparr>trace := trace s @ ext, client_timeout := ct\<rparr> \<and>
            (\<forall>x\<in>set ext. is_completion_event x)"
proof (induction "nat (mr + 1 - attempt)" arbitrary: attempt timeout last_exc s r s')
  case 0
  then have "mr < attempt" by simp
  with 0 show ?case
    by (auto simp: complete_from_done intro!: exI[of _ "[]"] exI[of _ "client_timeout s"])
next
  case (Suc n)
  then have le: "attempt \<le> mr" and n: "n = nat (mr + 1 - (attempt + 1))" by auto
  let ?ev = "CompleteCall timeout"
  let ?s1 = "emit ?ev s"
  show ?case
  proof (cases "s3_complete_multipart_upload env (calls is_complete_call (trace s))")
    case (Inr u)
    with Suc.prems have "s' = ?s1\<lparr>client_timeout := Some timeout\<rparr>"
      by (auto simp: complete_from_step[OF le])
    then show ?thesis
      by (intro exI[of _ "[?ev]"] exI[of _ "Some timeout"]) (simp add: emit_def)
  next
    case (Inl e)
    show ?thesis
    proof (cases "is_timeout_error e \<or> is_client_error e \<or> is_botocore_error e")
      case False
      with Inl Suc.prems have "s' = ?s1"
        by (auto simp: complete_from_step[OF le])
      then show ?thesis
        by (intro exI[of _ "[?ev]"] exI[of _ "client_timeout s"]) (simp add: emit_def)
    next
      case True
      let ?s2 = "if \<not> is_timeout_error e \<and> is_no_such_upload_error e then ?s1
                 else emit (Sleep timeout) ?s1"
      obtain head s3 where poll: "call_with_524_retry_from mr (head_call env) 1 ?s2 = (head, s3)"
        by (cases "call_with_524_retry_from mr (head_call env) 1 ?s2") auto
      from poll_frame[OF poll] obtain e3 where e3: "s3 = ?s2\<lparr>trace := trace ?s2 @ e3\<rparr>"
        "\<forall>x\<in>set e3. x = HeadCall \<or> is_sleep x" by blast
      have e3': "\<forall>x\<in>set e3. is_completion_event x"
      proof
        fix x assume "x \<in> set e3"
        with e3(2) have "x = HeadCall \<or> is_sleep x" by blast
        then show "is_completion_event x" by (cases x) auto
      qed
      obtain e2 where e2: "?s2 = s\<lparr>trace := trace s @ e2\<rparr>" "\<forall>x\<in>set e2. is_completion_event x"
      proof (cases "\<not> is_timeout_error e \<and> is_no_such_upload_error e")
        case True
        then have "?s2 = s\<lparr>trace := trace s @ [?ev]\<rparr>" by (simp add: emit_def)
        then show ?thesis using that[of "[?ev]"] by simp
      next
        case False
        then have "?s2 = s\<lparr>trace := trace s @ [?ev, Sleep timeout]\<rparr>" by (auto simp add: emit_def)
        then show ?thesis using that[of "[?ev, Sleep timeout]"] by simp
      qed
      have s3: "s3 = s\<lparr>trace := trace s @ (e2 @ e3)\<rparr>"
        using e3(1) e2(1) by simp
      consider (matched) "s' = s3\<lparr>client_timeout := Some timeout\<rparr>" | (stop) "s' = s3"
        | (retry) "complete_from env mr expected_size (attempt + 1) (timeout * 2) (Some e) s3 = (r, s')"
        using Suc.prems Inl True poll
        by (auto simp: complete_from_step[OF le] split: if_splits)
      then show ?thesis
      proof cases
        case matched
        with s3 e2(2) e3' show ?thesis
          by (intro exI[of _ "e2 @ e3"] exI[of _ "Some timeout"]) auto
      next
        case stop
        with s3 e2(2) e3' show ?thesis
          by (intro exI[of _ "e2 @ e3"] exI[of _ "client_timeout s"]) auto
      next
        case retry
        from Suc.hyps(1)[OF n retry] obtain e4 ct where e4:
          "s' = s3\<lparr>trace := trace s3 @ e4, client_timeout := ct\<rparr>"
          "\<forall>x\<in>set e4. is_completion_event x" by blast
        with s3 e2(2) e3' show ?thesis
          by (intro exI[of _ "e2 @ e3 @ e4"] exI[of _ ct]) auto
      qed
    qed
  qed
qed

lemma complete_with_timeout_retry_frame:
  assumes "complete_with_timeout_retry env initial_timeout expected_size s = (r, s')"
  shows "\<exists>ext ct. s' = s\<lparr>trace := trace s @ ext, client_timeout := ct\<rparr> \<and>
            (\<forall>x\<in>set ext. is_completion_event x)"
proof (cases "upload_id s = None")
  case True
  with assms have "s' = s" by (simp add: complete_with_timeout_retry_def)
  then show ?thesis by (intro exI[of _ "[]"] exI[of _ "client_timeout s"]) simp
next
  case False
  with assms show ?thesis
    by (intro complete_from_frame) (simp add: complete_with_timeout_retry_def)
qed

lemma calls_frame:
  assumes "\<forall>x\<in>set ext. Q x" and "\<And>x. Q x \<Longrightarrow> \<not> P x"
  shows "calls P (xs @ ext) = calls P xs"
  using assms by (simp add: calls_def)

lemma recount_facts:
  "call_with_524_retry_from mr (fetch_parts env) attempt s = (r, s') \<Longrightarrow>
     \<exists>ext. s' = s\<lparr>trace := trace s @ ext\<rparr> \<and> set ext \<subseteq> insert ListPartsCall (range Sleep) \<and>
       (attempt \<le> mr \<longrightarrow> ext \<noteq> [] \<and> hd ext = ListPartsCall \<and> last ext = ListPartsCall) \<and>
       (\<forall>v. r = Inr (Some v) \<longrightarrow>
          calls is_list_parts_call (trace s) < calls is_list_parts_call (trace s') \<and>
          s3_list_parts env (calls is_list_parts_call (trace s') - 1) = Inr v)"
  unfolding fetch_parts_def by (rule retry_store_call) simp_all

lemma create_facts:
  "call_with_524_retry_from mr (create_call env) attempt s = (r, s') \<Longrightarrow>
     \<exists>ext. s' = s\<lparr>trace := trace s @ ext\<rparr> \<and> set ext \<subseteq> insert CreateCall (range Sleep) \<and>
       (attempt \<le> mr \<longrightarrow> ext \<noteq> [] \<and> hd ext = CreateCall \<and> last ext = CreateCall) \<and>
       (\<forall>v. r = Inr (Some v) \<longrightarrow>
          calls is_create_call (trace s) < calls is_create_call (trace s') \<and>
          s3_create_multipart_upload env (calls is_create_call (trace s') - 1) = Inr v)"
  unfolding create_call_def by (rule retry_store_call) simp_all

lemma upload_body_phases:
  assumes "upload_body env file_size tp timeout s = (r, s')"
  obtains rs s1 x s2 y s3 z s4 e1 e2 e3 e4 ct where
    "upload_parts env file_size tp [1..tp] s = (rs, s1)"
    "call_with_524_retry (fetch_parts env) s1 = (x, s2)"
    "complete_with_timeout_retry env timeout file_size s2 = (y, s3)"
    "call_with_524_retry (head_call env) s3 = (z, s4)"
    "s1 = s\<lparr>trace := trace s @ e1\<rparr>" "\<forall>x\<in>set e1. is_part_phase_event x"
    "s2 = s1\<lparr>trace := trace s1 @ e2\<rparr>" "set e2 \<subseteq> insert ListPartsCall (range Sleep)"
    "s3 = s2\<lparr>trace := trace s2 @ e3, client_timeout := ct\<rparr>" "\<forall>x\<in>set e3. is_completion_event x"
    "s4 = s3\<lparr>trace := trace s3 @ e4\<rparr>" "set e4 \<subseteq> insert HeadCall (range Sleep)"
    "\<forall>v. x = Inr (Some v) \<longrightarrow>
       calls is_list_parts_call (trace s1) < calls is_list_parts_call (trace s2) \<and>
       s3_list_parts env (calls is_list_parts_call (trace s2) - 1) = Inr v"
    "\<forall>v. z = Inr (Some v) \<longrightarrow>
       calls is_head_call (trace s3) < calls is_head_call (trace s4) \<and>
       s3_head_object env (calls is_head_call (trace s4) - 1) = Inr v"
proof -
  obtain rs s1 where a: "upload_parts env file_size tp [1..tp] s = (rs, s1)"
    by (cases "upload_parts env file_size tp [1..tp] s") auto
  obtain x s2 where b: "call_with_524_retry (fetch_parts env) s1 = (x, s2)"
    by (cases "call_with_524_retry (fetch_parts env) s1") auto
  obtain y s3 where c: "complete_with_timeout_retry env timeout file_size s2 = (y, s3)"
    by (cases "complete_with_timeout_retry env timeout file_size s2") auto
  obtain z s4 where d: "call_with_524_retry (head_call env) s3 = (z, s4)"
    by (cases "call_with_524_retry (head_call env) s3") auto
  from upload_parts_frame[OF a] obtain e1 where e1:
    "s1 = s\<lparr>trace := trace s @ e1\<rparr>" "\<forall>x\<in>set e1. is_part_phase_event x" by blast
  from recount_facts[OF b[unfolded call_with_524_retry_def]] obtain e2 where e2:
    "s2 = s1\<lparr>trace := trace s1 @ e2\<rparr>" "set e2 \<subseteq> insert ListPartsCall (range Sleep)"
    "\<forall>v. x = Inr (Some v) \<longrightarrow>
       calls is_list_parts_call (trace s1) < calls is_list_parts_call (trace s2) \<and>
       s3_list_parts env (calls is_list_parts_call (trace s2) - 1) = Inr v"
    by blast
  from complete_with_timeout_retry_frame[OF c] obtain e3 ct where e3:
    "s3 = s2\<lparr>trace := trace s2 @ e3, client_timeout := ct\<rparr>" "\<forall>x\<in>set e3. is_completion_event x"
    by blast
  from poll_facts[OF d[unfolded call_with_524_retry_def]] obtain e4 where e4:
    "s4 = s3\<lparr>trace := trace s3 @ e4\<rparr>" "set e4 \<subseteq> insert HeadCall (range Sleep)"
    "\<forall>v. z = Inr (Some v) \<longrightarrow>
       calls is_head_call (trace s3) < calls is_head_call (trace s4) \<and>
       s3_head_object env (calls is_head_call (trace s4) - 1) = Inr v"
    by blast
  show ?thesis by (rule that[OF a b c d e1 e2(1,2) e3 e4(1,2) e2(3) e4(3)])
qed

lemma upload_body_result:
  assumes "upload_body env file_size tp timeout s = (r, s')"
    and "upload_parts env file_size tp [1..tp] s = (rs, s1)"
    and "call_with_524_retry (fetch_parts env) s1 = (x, s2)"
    and "complete_with_timeout_retry env timeout file_size s2 = (y, s3)"
    and "call_with_524_retry (head_call env) s3 = (z, s4)"
  shows "(s' = s1 \<and> r \<noteq> Inr ()) \<or>
         (s' = s2 \<and> r \<noteq> Inr ()) \<or>
         ((\<exists>seen. x = Inr (Some seen) \<and> int (length seen) = tp) \<and>
            ((s' = s3 \<and> r \<noteq> Inr ()) \<or> (s' = s4 \<and> r \<noteq> Inr ()) \<or>
             (s' = s4 \<and> r = Inr () \<and> z = Inr (Some (Some file_size)))))"
  using assms
  by (auto simp: upload_body_def split: sum.splits option.splits if_splits)


lemma upload_body_guards:
  assumes "upload_body env file_size tp timeout s = (r, s')"
  shows "(calls is_complete_call (trace s) < calls is_complete_call (trace s') \<or> r = Inr ()
            \<longrightarrow> calls is_list_parts_call (trace s) < calls is_list_parts_call (trace s') \<and>
                (\<exists>seen. s3_list_parts env (calls is_list_parts_call (trace s') - 1) = Inr seen \<and>
                        int (length seen) = tp)) \<and>
         (r = Inr () \<longrightarrow>
            calls is_head_call (trace s) < calls is_head_call (trace s') \<and>
            s3_head_object env (calls is_head_call (trace s') - 1) = Inr (Some file_size))"
proof -
  from assms obtain rs s1 x s2 y s3 z s4 e1 e2 e3 e4 ct where ph:
    "upload_parts env file_size tp [1..tp] s = (rs, s1)"
    "call_with_524_retry (fetch_parts env) s1 = (x, s2)"
    "complete_with_timeout_retry env timeout file_size s2 = (y, s3)"
    "call_with_524_retry (head_call env) s3 = (z, s4)"
    and s1: "s1 = s\<lparr>trace := trace s @ e1\<rparr>" and e1: "\<forall>x\<in>set e1. is_part_phase_event x"
    and s2: "s2 = s1\<lparr>trace := trace s1 @ e2\<rparr>" and e2: "set e2 \<subseteq> insert ListPartsCall (range Sleep)"
    and s3: "s3 = s2\<lparr>trace := trace s2 @ e3, client_timeout := ct\<rparr>"
    and e3: "\<forall>x\<in>set e3. is_completion_event x"
    and s4: "s4 = s3\<lparr>trace := trace s3 @ e4\<rparr>" and e4: "set e4 \<subseteq> insert HeadCall (range Sleep)"
    and lx: "\<forall>v. x = Inr (Some v) \<longrightarrow>
       calls is_list_parts_call (trace s1) < calls is_list_parts_call (trace s2) \<and>
       s3_list_parts env (calls is_list_parts_call (trace s2) - 1) = Inr v"
    and hz: "\<forall>v. z = Inr (Some v) \<longrightarrow>
       calls is_head_call (trace s3) < calls is_head_call (trace s4) \<and>
       s3_head_object env (calls is_head_call (trace s4) - 1) = Inr v"
    by (rule upload_body_phases)
  have m1: "calls is_list_parts_call (trace s) \<le> calls is_list_parts_call (trace s1)"
    by (simp add: s1 calls_append)
  have m3: "calls is_head_call (trace s) \<le> calls is_head_call (trace s3)"
    by (simp add: s1 s2 s3 calls_append)
  have "calls is_complete_call (trace s @ e1) = calls is_complete_call (trace s)"
    using e1 by (rule calls_frame) (auto elim: is_part_phase_event.elims)
  then have c1: "calls is_complete_call (trace s1) = calls is_complete_call (trace s)"
    by (simp add: s1)
  have "\<forall>x\<in>set e2. x = ListPartsCall \<or> is_sleep x" using e2 by auto
  then have "calls is_complete_call (trace s1 @ e2) = calls is_complete_call (trace s1)"
    by (rule calls_frame) (auto elim: is_sleep.elims)
  then have c2: "calls is_complete_call (trace s2) = calls is_complete_call (trace s1)"
    by (simp add: s2)
  have "calls is_list_parts_call (trace s2 @ e3) = calls is_list_parts_call (trace s2)"
    using e3 by (rule calls_frame) (auto elim: is_completion_event.elims)
  then have l3: "calls is_list_parts_call (trace s3) = calls is_list_parts_call (trace s2)"
    by (simp add: s3)
  have "\<forall>x\<in>set e4. x = HeadCall \<or> is_sleep x" using e4 by auto
  then have "calls is_list_parts_call (trace s3 @ e4) = calls is_list_parts_call (trace s3)"
    by (rule calls_frame) (auto elim: is_sleep.elims)
  then have l4: "calls is_list_parts_call (trace s4) = calls is_list_parts_call (trace s3)"
    by (simp add: s4)
  from upload_body_result[OF assms ph] c1 c2 l3 l4 lx hz m1 m3 show ?thesis
    by auto
qed

lemma upload_body_frame:
  assumes "upload_body env file_size tp timeout s = (r, s')"
  shows "\<exists>ext ct. s' = s\<lparr>trace := trace s @ ext, client_timeout := ct\<rparr> \<and>
           (\<forall>x\<in>set ext. is_body_event x)"
proof -
  from assms obtain rs s1 x s2 y s3 z s4 e1 e2 e3 e4 ct where ph:
    "upload_parts env file_size tp [1..tp] s = (rs, s1)"
    "call_with_524_retry (fetch_parts env) s1 = (x, s2)"
    "complete_with_timeout_retry env timeout file_size s2 = (y, s3)"
    "call_with_524_retry (head_call env) s3 = (z, s4)"
    and s1: "s1 = s\<lparr>trace := trace s @ e1\<rparr>" and e1: "\<forall>x\<in>set e1. is_part_phase_event x"
    and s2: "s2 = s1\<lparr>trace := trace s1 @ e2\<rparr>" and e2: "set e2 \<subseteq> insert ListPartsCall (range Sleep)"
    and s3: "s3 = s2\<lparr>trace := trace s2 @ e3, client_timeout := ct\<rparr>"
    and e3: "\<forall>x\<in>set e3. is_completion_event x"
    and s4: "s4 = s3\<lparr>trace := trace s3 @ e4\<rparr>" and e4: "set e4 \<subseteq> insert HeadCall (range Sleep)"
    by (rule upload_body_phases)
  have b1: "\<forall>x\<in>set e1. is_body_event x"
  proof
    fix x assume "x \<in> set e1"
    with e1 have "is_part_phase_event x" by blast
    then show "is_body_event x" by (cases x) auto
  qed
  have b2: "\<forall>x\<in>set e2. is_body_event x" using e2 by auto
  have b3: "\<forall>x\<in>set e3. is_body_event x"
  proof
    fix x assume "x \<in> set e3"
    with e3 have "is_completion_event x" by blast
    then show "is_body_event x" by (cases x) auto
  qed
  have b4: "\<forall>x\<in>set e4. is_body_event x" using e4 by auto
  have f1: "s1 = s\<lparr>trace := trace s @ e1, client_timeout := client_timeout s\<rparr>"
    using s1 by simp
  have f2: "s2 = s\<lparr>trace := trace s @ (e1 @ e2), client_timeout := client_timeout s\<rparr>"
    using s1 s2 by simp
  have f3: "s3 = s\<lparr>trace := trace s @ (e1 @ e2 @ e3), client_timeout := ct\<rparr>"
    using s1 s2 s3 by simp
  have f4: "s4 = s\<lparr>trace := trace s @ (e1 @ e2 @ e3 @ e4), client_timeout := ct\<rparr>"
    using s1 s2 s3 s4 by simp
  from upload_body_result[OF assms ph] have "s' = s1 \<or> s' = s2 \<or> s' = s3 \<or> s' = s4"
    by blast
  then show ?thesis
  proof (elim disjE)
    assume "s' = s1"
    with f1 b1 show ?thesis by blast
  next
    assume "s' = s2"
    with f2 b1 b2 show ?thesis
      by (intro exI[of _ "e1 @ e2"] exI[of _ "client_timeout s"]) auto
  next
    assume "s' = s3"
    with f3 b1 b2 b3 show ?thesis
      by (intro exI[of _ "e1 @ e2 @ e3"] exI[of _ ct]) auto
  next
    assume "s' = s4"
    with f4 b1 b2 b3 b4 show ?thesis
      by (intro exI[of _ "e1 @ e2 @ e3 @ e4"] exI[of _ ct]) auto
  qed
qed

lemma report_session_calls:
  assumes "\<And>u. \<not> P (ReportSession u)"
  shows "calls P (trace (report_session s)) = calls P (trace s)"
  using assms by (simp add: report_session_def emit_def calls_def split: option.splits)

lemma report_session_upload_id: "upload_id (report_session s) = upload_id s"
  by (simp add: report_session_def emit_def split: option.splits)


lemma report_session_extends: "\<exists>ext. trace (report_session s) = trace s @ ext"
  by (simp add: report_session_def emit_def split: option.splits)


section \<open>The driver\<close>

text \<open>
  Claim C6. In a run of \<^verbatim>\<open>upload\<close>, a complete request is sent only if the recount
  (the last \<^verbatim>\<open>list_parts\<close> answer) has exactly \<^verbatim>\<open>total_parts\<close> entries, and the run
  returns normally only if, besides, the last \<^verbatim>\<open>head_object\<close> answer carries exactly
  the size of the local file. With any other recount no complete request is sent, and
  with any other recount or final size the run ends in an error.
\<close>

theorem completion_and_success_are_guarded:
  assumes "upload env s = (r, s')"
  shows "(calls is_complete_call (trace s) < calls is_complete_call (trace s') \<or> r = Inr ()
            \<longrightarrow> calls is_list_parts_call (trace s) < calls is_list_parts_call (trace s') \<and>
                (\<exists>seen. s3_list_parts env (calls is_list_parts_call (trace s') - 1) = Inr seen \<and>
                   total_parts (getsize env) (part_size s) = Inr (int (length seen)))) \<and>
         (r = Inr () \<longrightarrow>
            calls is_head_call (trace s) < calls is_head_call (trace s') \<and>
            s3_head_object env (calls is_head_call (trace s') - 1) = Inr (Some (getsize env)))"
proof -
  obtain c s1 where create: "call_with_524_retry (create_call env) s = (c, s1)"
    by (cases "call_with_524_retry (create_call env) s") auto
  from create_facts[OF create[unfolded call_with_524_retry_def]] obtain e0 where e0:
    "s1 = s\<lparr>trace := trace s @ e0\<rparr>" "set e0 \<subseteq> insert CreateCall (range Sleep)" by blast
  have "\<forall>x\<in>set e0. x = CreateCall \<or> is_sleep x" using e0(2) by auto
  then have "calls is_complete_call (trace s @ e0) = calls is_complete_call (trace s)"
    by (rule calls_frame) (auto elim: is_sleep.elims)
  then have c1: "calls is_complete_call (trace s1) = calls is_complete_call (trace s)"
    by (simp add: e0(1))
  have ps: "part_size s1 = part_size s" by (simp add: e0(1))
  show ?thesis
  proof (cases "\<exists>tp timeout uid. total_parts (getsize env) (part_size s) = Inr tp \<and>
      completion_timeout (getsize env) = Inr timeout \<and> c = Inr (Some uid)")
    case False
    with assms create have "(s' = s \<or> s' = s1) \<and> r \<noteq> Inr ()"
      by (auto simp: upload_def Let_def split: sum.splits option.splits)
    with c1 show ?thesis by auto
  next
    case True
    then obtain tp timeout uid where ok: "total_parts (getsize env) (part_size s) = Inr tp"
      "completion_timeout (getsize env) = Inr timeout" "c = Inr (Some uid)" by blast
    obtain rb s2 where body:
      "upload_body env (getsize env) tp timeout (s1\<lparr>upload_id := Some uid\<rparr>) = (rb, s2)"
      by (cases "upload_body env (getsize env) tp timeout (s1\<lparr>upload_id := Some uid\<rparr>)") auto
    have m: "calls is_list_parts_call (trace s) \<le> calls is_list_parts_call (trace s1)"
      "calls is_head_call (trace s) \<le> calls is_head_call (trace s1)"
      by (simp_all add: e0(1) calls_append)
    from upload_body_guards[OF body] c1 m have g:
      "calls is_complete_call (trace s) < calls is_complete_call (trace s2) \<or> rb = Inr ()
         \<longrightarrow> calls is_list_parts_call (trace s) < calls is_list_parts_call (trace s2) \<and>
             (\<exists>seen. s3_list_parts env (calls is_list_parts_call (trace s2) - 1) = Inr seen \<and>
                        int (length seen) = tp)"
      "rb = Inr () \<longrightarrow> calls is_head_call (trace s) < calls is_head_call (trace s2) \<and>
         s3_head_object env (calls is_head_call (trace s2) - 1) = Inr (Some (getsize env))"
      by auto
    have r: "r = rb" "s' = (case rb of Inl e \<Rightarrow> report_session s2 | Inr u \<Rightarrow> s2)"
      using assms create ok body by (auto simp: upload_def Let_def split: sum.splits)
    have cnt: "calls is_complete_call (trace s') = calls is_complete_call (trace s2)"
      "calls is_list_parts_call (trace s') = calls is_list_parts_call (trace s2)"
      "calls is_head_call (trace s') = calls is_head_call (trace s2)"
      unfolding r(2) by (cases rb; simp add: report_session_calls)+
    from g r(1) cnt ok(1) show ?thesis by auto
  qed
qed


lemma upload_ok_run:
  "upload store_ok (new_uploader 52428800 5)
     = (Inr (),
        (new_uploader 52428800 5)\<lparr>upload_id := Some ''u1'', client_timeout := Some 60,
           trace := [CreateCall, UploadPartCall 1 0 52428800,
             UploadPartCall 2 52428800 52428800, UploadPartCall 3 104857600 1048576,
             ListPartsCall, CompleteCall 60, HeadCall]\<rparr>)"
  by (simp add: new_uploader_def store_ok_def retry_eval complete_eval part_eval driver_eval
      upto_rec1 total_parts_example completion_timeout_example)


theorem completion_and_success_are_guarded_witness:
  "upload store_ok (new_uploader 52428800 5)
     = (Inr (),
        (new_uploader 52428800 5)\<lparr>upload_id := Some ''u1'', client_timeout := Some 60,
           trace := [CreateCall, UploadPartCall 1 0 52428800,
             UploadPartCall 2 52428800 52428800, UploadPartCall 3 104857600 1048576,
             ListPartsCall, CompleteCall 60, HeadCall]\<rparr>) \<and>
   s3_list_parts store_ok 0 = Inr [1, 2, 3] \<and>
   total_parts (getsize store_ok) (part_size (new_uploader 52428800 5)) = Inr 3 \<and>
   s3_head_object store_ok 0 = Inr (Some (getsize store_ok))"
  using completion_and_success_are_guarded [OF upload_ok_run] upload_ok_run
  by (auto simp: calls_def store_ok_def)


lemma retry_returns_value:
  "call_with_524_retry_from mr func attempt s = (Inr None, s') \<Longrightarrow> mr < attempt"
proof (induction "nat (mr + 1 - attempt)" arbitrary: attempt s)
  case 0
  then show ?case by simp
next
  case (Suc n)
  then have le: "attempt \<le> mr" and n: "n = nat (mr + 1 - (attempt + 1))" by auto
  obtain a s1 where f: "func s = (a, s1)" by (cases "func s") auto
  let ?s2 = "emit (Sleep (2 ^ nat attempt)) s1"
  from Suc.prems f have "attempt \<noteq> mr \<and>
      call_with_524_retry_from mr func (attempt + 1) ?s2 = (Inr None, s')"
    by (auto simp: call_with_524_retry_from_step[OF le] split: sum.splits if_splits)
  then have "attempt \<noteq> mr" "mr < attempt + 1"
    using Suc.hyps(1)[OF n] by blast+
  with le show ?case by simp
qed

lemma upload_part_from_returns_part:
  "upload_part_from env mr part_number offset bytes_to_read tp attempt s = (Inr None, s') \<Longrightarrow>
   mr < attempt"
proof (induction "nat (mr + 1 - attempt)" arbitrary: attempt s)
  case 0
  then show ?case by simp
next
  case (Suc n)
  then have le: "attempt \<le> mr" and n: "n = nat (mr + 1 - (attempt + 1))" by auto
  let ?s1 = "emit (UploadPartCall part_number offset bytes_to_read) s"
  let ?s2 = "emit (Sleep (2 ^ nat attempt)) ?s1"
  from Suc.prems have "attempt \<noteq> mr \<and>
      upload_part_from env mr part_number offset bytes_to_read tp (attempt + 1) ?s2 = (Inr None, s')"
    by (auto simp: upload_part_from_step[OF le] Let_def split: sum.splits if_splits)
  then have "attempt \<noteq> mr" "mr < attempt + 1"
    using Suc.hyps(1)[OF n] by blast+
  with le show ?case by simp
qed

lemma upload_parts_return_parts:
  "1 \<le> max_retries s \<Longrightarrow> upload_parts env file_size tp ps s = (rs, s') \<Longrightarrow>
   Inr None \<notin> set rs"
proof (induction ps arbitrary: s rs s')
  case Nil
  then show ?case by simp
next
  case (Cons p ps)
  obtain r s1 where r: "upload_part env p (chunk_offset (part_size s) p)
      (chunk_size file_size (part_size s) p) tp s = (r, s1)"
    by (cases "upload_part env p (chunk_offset (part_size s) p)
      (chunk_size file_size (part_size s) p) tp s") auto
  obtain rs' s2 where rs': "upload_parts env file_size tp ps s1 = (rs', s2)"
    by (cases "upload_parts env file_size tp ps s1") auto
  from Cons.prems(2) r rs' have rs: "rs = r # rs'" by simp
  from upload_part_frame[OF r] have "max_retries s1 = max_retries s" by auto
  with Cons.prems(1) Cons.IH[OF _ rs'] have tl: "Inr None \<notin> set rs'" by simp
  have "r \<noteq> Inr None"
  proof
    assume "r = Inr None"
    with r have "upload_part_from env (max_retries s) p (chunk_offset (part_size s) p)
      (chunk_size file_size (part_size s) p) tp 1 s = (Inr None, s1)"
      by (auto simp: upload_part_def split: if_splits)
    from upload_part_from_returns_part[OF this] Cons.prems(1) show False by simp
  qed
  with tl rs show ?case by auto
qed

lemma collect_results_first_error:
  "collect_results (map Inr vs @ Inl e # rest) = Inl e"
  by (induction vs) simp_all

lemma collect_results_all_values: "collect_results (map Inr vs) = Inr vs"
  by (induction vs) simp_all

text \<open>
  Claim C8. The session has been created with a non-empty identifier \<open>uid\<close>. \<open>rs\<close> are
  the results of the part uploads, \<open>x\<close> the answer to the recount, \<open>y\<close> the result of
  the completion coordinator and \<open>z\<close> the answer to the final size request, each with
  the state it leaves. A failure in any of these phases is the result of \<^verbatim>\<open>upload\<close>:
  the first failed part of \<open>rs\<close>; with no failed part, an error of the recount or a
  recount whose length is not \<^verbatim>\<open>total_parts\<close>; after a good recount, an error of the
  coordinator; after the coordinator has returned, an error of the size request or a
  size other than the file's. In each case \<^verbatim>\<open>upload\<close> raises that error, from the state
  the failed phase left, with the report of \<open>uid\<close> as the one event added. The retry
  wrapper returns no \<^verbatim>\<open>None\<close> in these phases. Whenever \<^verbatim>\<open>upload\<close> fails, the stored
  \<^verbatim>\<open>upload_id\<close> is still \<open>uid\<close>, the report of \<open>uid\<close> is the last event, and the run
  has sent no abort request.
\<close>

theorem failure_reports_session_and_leaves_it_open:
  assumes "total_parts (getsize env) (part_size s) = Inr tp"
    and "completion_timeout (getsize env) = Inr timeout"
    and "call_with_524_retry (create_call env) s = (Inr (Some uid), s1)"
    and "uid \<noteq> []"
    and "upload_parts env (getsize env) tp [1..tp] (s1\<lparr>upload_id := Some uid\<rparr>) = (rs, sA)"
    and "call_with_524_retry (fetch_parts env) sA = (x, sB)"
    and "complete_with_timeout_retry env timeout (getsize env) sB = (y, sC)"
    and "call_with_524_retry (head_call env) sC = (z, sD)"
  shows "(\<forall>vs e rest. rs = map Inr vs @ Inl e # rest \<longrightarrow>
            upload env s = (Inl e, emit (ReportSession uid) sA)) \<and>
         (\<forall>vs. rs = map Inr vs \<longrightarrow>
            (\<forall>e. x = Inl e \<longrightarrow> upload env s = (Inl e, emit (ReportSession uid) sB)) \<and>
            (\<forall>seen. x = Inr (Some seen) \<and> int (length seen) \<noteq> tp \<longrightarrow>
               upload env s = (Inl (RuntimeError (PartCountMismatch tp (int (length seen)))),
                               emit (ReportSession uid) sB)) \<and>
            (\<forall>seen. x = Inr (Some seen) \<and> int (length seen) = tp \<longrightarrow>
               (\<forall>e. y = Inl e \<longrightarrow> upload env s = (Inl e, emit (ReportSession uid) sC)) \<and>
               (y = Inr () \<longrightarrow>
                  (\<forall>e. z = Inl e \<longrightarrow> upload env s = (Inl e, emit (ReportSession uid) sD)) \<and>
                  (\<forall>h. z = Inr (Some h) \<and> h \<noteq> Some (getsize env) \<longrightarrow>
                     upload env s = (Inl (RuntimeError SizeMismatch),
                                     emit (ReportSession uid) sD))))) \<and>
         x \<noteq> Inr None \<and> z \<noteq> Inr None \<and>
         (\<forall>e s'. upload env s = (Inl e, s') \<longrightarrow>
            upload_id s' = Some uid \<and>
            (\<exists>ext. trace s' = trace s @ ext @ [ReportSession uid] \<and> AbortCall \<notin> set ext))"
proof -
  let ?s0 = "s1\<lparr>upload_id := Some uid\<rparr>"
  let ?fs = "getsize env"
  have mr: "1 \<le> max_retries s"
  proof (rule ccontr)
    assume "\<not> 1 \<le> max_retries s"
    then have "max_retries s < 1" by simp
    with assms(3) show False
      by (simp add: call_with_524_retry_def call_with_524_retry_from_done)
  qed
  from create_facts[OF assms(3)[unfolded call_with_524_retry_def]] obtain e0 where e0:
    "s1 = s\<lparr>trace := trace s @ e0\<rparr>" "set e0 \<subseteq> insert CreateCall (range Sleep)" by blast
  from upload_parts_frame[OF assms(5)] obtain e1 where e1:
    "sA = ?s0\<lparr>trace := trace ?s0 @ e1\<rparr>" by blast
  from recount_facts[OF assms(6)[unfolded call_with_524_retry_def]] obtain e2 where e2:
    "sB = sA\<lparr>trace := trace sA @ e2\<rparr>" by blast
  from complete_with_timeout_retry_frame[OF assms(7)] obtain e3 ct where e3:
    "sC = sB\<lparr>trace := trace sB @ e3, client_timeout := ct\<rparr>" by blast
  from poll_facts[OF assms(8)[unfolded call_with_524_retry_def]] obtain e4 where e4:
    "sD = sC\<lparr>trace := trace sC @ e4\<rparr>" by blast
  have ids: "upload_id sA = Some uid" "upload_id sB = Some uid" "upload_id sC = Some uid"
    "upload_id sD = Some uid"
    using e1 e2 e3 e4 by simp_all
  have mrs: "max_retries ?s0 = max_retries s" "max_retries sA = max_retries s"
    "max_retries sC = max_retries s"
    using e0(1) e1 e2 e3 by simp_all
  have rep: "report_session sA = emit (ReportSession uid) sA"
    "report_session sB = emit (ReportSession uid) sB"
    "report_session sC = emit (ReportSession uid) sC"
    "report_session sD = emit (ReportSession uid) sD"
    using ids assms(4) by (simp_all add: report_session_def)
  have up: "upload env s =
      (case upload_body env ?fs tp timeout ?s0 of
         (Inl e, s2) \<Rightarrow> (Inl e, report_session s2)
       | (Inr u, s2) \<Rightarrow> (Inr (), s2))"
    using assms(1-3) by (simp add: upload_def Let_def)
  have xn: "x \<noteq> Inr None"
  proof
    assume "x = Inr None"
    with assms(6) have "call_with_524_retry_from (max_retries sA) (fetch_parts env) 1 sA
        = (Inr None, sB)" by (simp add: call_with_524_retry_def)
    from retry_returns_value[OF this] mr mrs(2) show False by simp
  qed
  have zn: "z \<noteq> Inr None"
  proof
    assume "z = Inr None"
    with assms(8) have "call_with_524_retry_from (max_retries sC) (head_call env) 1 sC
        = (Inr None, sD)" by (simp add: call_with_524_retry_def)
    from retry_returns_value[OF this] mr mrs(3) show False by simp
  qed
  have parts_fail: "upload env s = (Inl e, emit (ReportSession uid) sA)"
    if "rs = map Inr vs @ Inl e # rest" for vs e rest
    using that assms(5) rep(1)
    by (simp add: up upload_body_def collect_results_first_error)
  have body_ok: "upload_body env ?fs tp timeout ?s0 =
      (case x of
         Inl e \<Rightarrow> (Inl e, sB)
       | Inr None \<Rightarrow> (Inl TypeError, sB)
       | Inr (Some seen) \<Rightarrow>
           if int (length seen) \<noteq> tp
           then (Inl (RuntimeError (PartCountMismatch tp (int (length seen)))), sB)
           else (case y of
                   Inl e \<Rightarrow> (Inl e, sC)
                 | Inr u \<Rightarrow>
                     (case z of
                        Inl e \<Rightarrow> (Inl e, sD)
                      | Inr None \<Rightarrow> (Inl AttributeError, sD)
                      | Inr (Some h) \<Rightarrow>
                          if h \<noteq> Some ?fs then (Inl (RuntimeError SizeMismatch), sD)
                          else (Inr (), sD))))"
    if "rs = map Inr vs" for vs
  proof -
    from upload_parts_return_parts[OF _ assms(5)] mr mrs(1) have "Inr None \<notin> set rs" by simp
    with that have "None \<notin> set vs" by auto
    then have sp: "sort_parts vs = Inr (sort_key fst (map the vs))" by simp
    show ?thesis
      using that assms(5-8) sp
      by (simp add: upload_body_def collect_results_all_values
          split: sum.splits option.splits del: sort_parts.simps)
  qed
  have fail_facts: "upload_id s' = Some uid \<and>
      (\<exists>ext. trace s' = trace s @ ext @ [ReportSession uid] \<and> AbortCall \<notin> set ext)"
    if "upload env s = (Inl e, s')" for e s'
  proof -
    obtain rb s2 where body: "upload_body env ?fs tp timeout ?s0 = (rb, s2)"
      by (cases "upload_body env ?fs tp timeout ?s0") auto
    from upload_body_frame[OF body] obtain ext ct2 where ext:
      "s2 = ?s0\<lparr>trace := trace ?s0 @ ext, client_timeout := ct2\<rparr>"
      "\<forall>x\<in>set ext. is_body_event x" by auto
    have uid2: "upload_id s2 = Some uid" using ext(1) by simp
    then have r2: "report_session s2 = emit (ReportSession uid) s2"
      using assms(4) by (simp add: report_session_def)
    from that body have s': "s' = emit (ReportSession uid) s2"
      by (cases rb) (simp_all add: up r2)
    have tr: "trace s' = trace s @ (e0 @ ext) @ [ReportSession uid]"
      using s' ext(1) e0(1) by (simp add: emit_def)
    have "AbortCall \<notin> set ext" using ext(2) by auto
    moreover have "AbortCall \<notin> set e0" using e0(2) by auto
    ultimately have "AbortCall \<notin> set (e0 @ ext)" by simp
    with tr s' uid2 show ?thesis by (auto simp: emit_def)
  qed
  show ?thesis
  proof (intro conjI allI impI)
    fix vs e rest assume "rs = map Inr vs @ Inl e # rest"
    then show "upload env s = (Inl e, emit (ReportSession uid) sA)" by (rule parts_fail)
  next
    fix vs e assume "rs = map Inr vs" "x = Inl e"
    then show "upload env s = (Inl e, emit (ReportSession uid) sB)"
      by (simp add: up body_ok rep)
  next
    fix vs seen assume "rs = map Inr vs" "x = Inr (Some seen) \<and> int (length seen) \<noteq> tp"
    then show "upload env s = (Inl (RuntimeError (PartCountMismatch tp (int (length seen)))),
                               emit (ReportSession uid) sB)"
      by (simp add: up body_ok rep)
  next
    fix vs seen e
    assume "rs = map Inr vs" "x = Inr (Some seen) \<and> int (length seen) = tp" "y = Inl e"
    then show "upload env s = (Inl e, emit (ReportSession uid) sC)"
      by (simp add: up body_ok rep)
  next
    fix vs seen e
    assume "rs = map Inr vs" "x = Inr (Some seen) \<and> int (length seen) = tp" "y = Inr ()"
      "z = Inl e"
    then show "upload env s = (Inl e, emit (ReportSession uid) sD)"
      by (simp add: up body_ok rep)
  next
    fix vs seen h
    assume "rs = map Inr vs" "x = Inr (Some seen) \<and> int (length seen) = tp" "y = Inr ()"
      "z = Inr (Some h) \<and> h \<noteq> Some (getsize env)"
    then show "upload env s = (Inl (RuntimeError SizeMismatch), emit (ReportSession uid) sD)"
      by (simp add: up body_ok rep)
  next
    show "x \<noteq> Inr None" by (rule xn)
  next
    show "z \<noteq> Inr None" by (rule zn)
  next
    fix e s' assume "upload env s = (Inl e, s')"
    from fail_facts[OF this] show "upload_id s' = Some uid" by simp
  next
    fix e s' assume "upload env s = (Inl e, s')"
    from fail_facts[OF this]
    show "\<exists>ext. trace s' = trace s @ ext @ [ReportSession uid] \<and> AbortCall \<notin> set ext" by simp
  qed
qed

theorem failure_reports_session_and_leaves_it_open_witness:
  "total_parts (getsize store_full) (part_size (new_uploader 52428800 5)) = Inr 3 \<and>
   completion_timeout (getsize store_full) = Inr 60 \<and>
   call_with_524_retry (create_call store_full) (new_uploader 52428800 5)
     = (Inr (Some ''u1''), (new_uploader 52428800 5)\<lparr>trace := [CreateCall]\<rparr>) \<and>
   ''u1'' \<noteq> [] \<and>
   fst (upload_parts store_full (getsize store_full) 3 [1..3]
          ((new_uploader 52428800 5)\<lparr>trace := [CreateCall], upload_id := Some ''u1''\<rparr>))
     = map Inr [] @ Inl (RuntimeError InsufficientStorage)
         # [Inl (RuntimeError InsufficientStorage), Inl (RuntimeError InsufficientStorage)] \<and>
   upload store_full (new_uploader 52428800 5)
     = (Inl (RuntimeError InsufficientStorage),
        (new_uploader 52428800 5)\<lparr>upload_id := Some ''u1'',
           trace := [CreateCall,
             UploadPartCall 1 0 52428800, Sleep 2, UploadPartCall 1 0 52428800, Sleep 4,
             UploadPartCall 1 0 52428800,
             UploadPartCall 2 52428800 52428800, Sleep 2, UploadPartCall 2 52428800 52428800,
             Sleep 4, UploadPartCall 2 52428800 52428800,
             UploadPartCall 3 104857600 1048576, Sleep 2, UploadPartCall 3 104857600 1048576,
             Sleep 4, UploadPartCall 3 104857600 1048576,
             ReportSession ''u1'']\<rparr>) \<and>
   total_parts (getsize store_short_recount) (part_size (new_uploader 52428800 5)) = Inr 3 \<and>
   completion_timeout (getsize store_short_recount) = Inr 60 \<and>
   call_with_524_retry (create_call store_short_recount) (new_uploader 52428800 5)
     = (Inr (Some ''u1''), (new_uploader 52428800 5)\<lparr>trace := [CreateCall]\<rparr>) \<and>
   fst (upload_parts store_short_recount (getsize store_short_recount) 3 [1..3]
          ((new_uploader 52428800 5)\<lparr>trace := [CreateCall], upload_id := Some ''u1''\<rparr>))
     = map Inr [Some (1, ''etag''), Some (2, ''etag''), Some (3, ''etag'')] \<and>
   upload store_short_recount (new_uploader 52428800 5)
     = (Inl (RuntimeError (PartCountMismatch 3 2)),
        (new_uploader 52428800 5)\<lparr>upload_id := Some ''u1'',
           trace := [CreateCall, UploadPartCall 1 0 52428800,
             UploadPartCall 2 52428800 52428800, UploadPartCall 3 104857600 1048576,
             ListPartsCall, ReportSession ''u1'']\<rparr>)"
proof -
  let ?s = "new_uploader 52428800 5"
  let ?s1 = "?s\<lparr>trace := [CreateCall]\<rparr>"
  let ?pf = "[UploadPartCall 1 0 52428800, Sleep 2, UploadPartCall 1 0 52428800, Sleep 4,
             UploadPartCall 1 0 52428800,
             UploadPartCall 2 52428800 52428800, Sleep 2, UploadPartCall 2 52428800 52428800,
             Sleep 4, UploadPartCall 2 52428800 52428800,
             UploadPartCall 3 104857600 1048576, Sleep 2, UploadPartCall 3 104857600 1048576,
             Sleep 4, UploadPartCall 3 104857600 1048576]"
  let ?po = "[UploadPartCall 1 0 52428800,
             UploadPartCall 2 52428800 52428800, UploadPartCall 3 104857600 1048576]"
  let ?full = "Inl (RuntimeError InsufficientStorage) :: exc + (int \<times> string) option"
  let ?rsF = "map Inr [] @ ?full # [?full, ?full]"
  let ?sAF = "?s\<lparr>upload_id := Some ''u1'', trace := CreateCall # ?pf\<rparr>"
  let ?sBF = "?s\<lparr>upload_id := Some ''u1'', trace := CreateCall # ?pf @ [ListPartsCall]\<rparr>"
  let ?sCF = "?s\<lparr>upload_id := Some ''u1'', client_timeout := Some 60,
                 trace := CreateCall # ?pf @ [ListPartsCall, CompleteCall 60]\<rparr>"
  let ?sDF = "?s\<lparr>upload_id := Some ''u1'', client_timeout := Some 60,
                 trace := CreateCall # ?pf @ [ListPartsCall, CompleteCall 60, HeadCall]\<rparr>"
  let ?rsR = "map Inr [Some (1, ''etag''), Some (2, ''etag''), Some (3, ''etag'')]
                :: (exc + (int \<times> string) option) list"
  let ?sAR = "?s\<lparr>upload_id := Some ''u1'', trace := CreateCall # ?po\<rparr>"
  let ?sBR = "?s\<lparr>upload_id := Some ''u1'', trace := CreateCall # ?po @ [ListPartsCall]\<rparr>"
  let ?sCR = "?s\<lparr>upload_id := Some ''u1'', client_timeout := Some 60,
                 trace := CreateCall # ?po @ [ListPartsCall, CompleteCall 60]\<rparr>"
  let ?sDR = "?s\<lparr>upload_id := Some ''u1'', client_timeout := Some 60,
                 trace := CreateCall # ?po @ [ListPartsCall, CompleteCall 60, HeadCall]\<rparr>"
  have ne: "''u1'' \<noteq> []" by simp
  have tpF: "total_parts (getsize store_full) (part_size ?s) = Inr 3"
    by (simp add: new_uploader_def store_full_def store_ok_def total_parts_example)
  have ctF: "completion_timeout (getsize store_full) = Inr 60"
    by (simp add: store_full_def store_ok_def completion_timeout_example)
  have crF: "call_with_524_retry (create_call store_full) ?s = (Inr (Some ''u1''), ?s1)"
    by (simp add: new_uploader_def store_full_def store_ok_def retry_eval create_call_def)
  have upF: "upload_parts store_full (getsize store_full) 3 [1..3] (?s1\<lparr>upload_id := Some ''u1''\<rparr>)
      = (?rsF, ?sAF)"
    by (simp add: new_uploader_def store_full_def store_ok_def retry_eval part_eval
        chunk_offset_def chunk_size_def upto_rec1)
  have liF: "call_with_524_retry (fetch_parts store_full) ?sAF = (Inr (Some [1, 2, 3]), ?sBF)"
    by (simp add: new_uploader_def store_full_def store_ok_def retry_eval fetch_parts_def)
  have coF: "complete_with_timeout_retry store_full 60 (getsize store_full) ?sBF = (Inr (), ?sCF)"
    by (simp add: new_uploader_def store_full_def store_ok_def retry_eval complete_eval)
  have heF: "call_with_524_retry (head_call store_full) ?sCF
      = (Inr (Some (Some 105906176)), ?sDF)"
    by (simp add: new_uploader_def store_full_def store_ok_def retry_eval head_call_def)
  have tpR: "total_parts (getsize store_short_recount) (part_size ?s) = Inr 3"
    by (simp add: new_uploader_def store_short_recount_def store_ok_def total_parts_example)
  have ctR: "completion_timeout (getsize store_short_recount) = Inr 60"
    by (simp add: store_short_recount_def store_ok_def completion_timeout_example)
  have crR: "call_with_524_retry (create_call store_short_recount) ?s = (Inr (Some ''u1''), ?s1)"
    by (simp add: new_uploader_def store_short_recount_def store_ok_def retry_eval create_call_def)
  have upR: "upload_parts store_short_recount (getsize store_short_recount) 3 [1..3]
        (?s1\<lparr>upload_id := Some ''u1''\<rparr>) = (?rsR, ?sAR)"
    by (simp add: new_uploader_def store_short_recount_def store_ok_def retry_eval part_eval
        chunk_offset_def chunk_size_def upto_rec1)
  have liR: "call_with_524_retry (fetch_parts store_short_recount) ?sAR = (Inr (Some [1, 2]), ?sBR)"
    by (simp add: new_uploader_def store_short_recount_def store_ok_def retry_eval fetch_parts_def)
  have coR: "complete_with_timeout_retry store_short_recount 60 (getsize store_short_recount) ?sBR
      = (Inr (), ?sCR)"
    by (simp add: new_uploader_def store_short_recount_def store_ok_def retry_eval complete_eval)
  have heR: "call_with_524_retry (head_call store_short_recount) ?sCR
      = (Inr (Some (Some 105906176)), ?sDR)"
    by (simp add: new_uploader_def store_short_recount_def store_ok_def retry_eval head_call_def)
  note full = failure_reports_session_and_leaves_it_open [OF tpF ctF crF ne upF liF coF heF]
  note short = failure_reports_session_and_leaves_it_open [OF tpR ctR crR ne upR liR coR heR]
  have runF: "upload store_full ?s
      = (Inl (RuntimeError InsufficientStorage), emit (ReportSession ''u1'') ?sAF)"
    by (rule full[THEN conjunct1, rule_format, OF refl])
  have runR: "upload store_short_recount ?s
      = (Inl (RuntimeError (PartCountMismatch 3 (int (length [1, 2 :: int])))),
         emit (ReportSession ''u1'') ?sBR)"
    by (rule short[THEN conjunct2, THEN conjunct1, rule_format, OF refl, THEN conjunct2,
          THEN conjunct1, rule_format]) simp
  from runF runR tpF ctF crF upF tpR ctR crR upR
  show ?thesis by (simp add: emit_def new_uploader_def)
qed

text \<open>
  Claim C9, as the code has it, for a run in which \<^verbatim>\<open>os.path.getsize\<close> returns. Nothing
  validates \<^verbatim>\<open>part_size\<close>. With \<^verbatim>\<open>part_size = 0\<close> the division of \<^verbatim>\<open>upload\<close> raises
  \<^verbatim>\<open>ZeroDivisionError\<close> before any store request or sleep, and nothing retries it. With
  \<^verbatim>\<open>part_size < 0\<close> and a size below \<open>2 ^ 1023\<close> the planning raises nothing. Then, with
  \<^verbatim>\<open>max_retries \<ge> 1\<close>, the run goes on to the store: its first event is the
  \<^verbatim>\<open>create_multipart_upload\<close> request. With \<^verbatim>\<open>max_retries \<le> 0\<close> the retry wrapper
  returns \<^verbatim>\<open>None\<close> without a request, and \<^verbatim>\<open>resp["UploadId"]\<close> raises \<^verbatim>\<open>TypeError\<close>.
\<close>

theorem zero_part_size_fails_before_the_store:
  "(part_size s = 0 \<longrightarrow> upload env s = (Inl ZeroDivisionError, s)) \<and>
   (part_size s < 0 \<and> \<bar>getsize env\<bar> < 2 ^ 1023 \<and> 1 \<le> max_retries s \<longrightarrow>
      (\<exists>rest. trace (snd (upload env s)) = trace s @ CreateCall # rest)) \<and>
   (part_size s < 0 \<and> \<bar>getsize env\<bar> < 2 ^ 1023 \<and> max_retries s \<le> 0 \<longrightarrow>
      upload env s = (Inl TypeError, s))"
proof (intro conjI impI)
  assume "part_size s = 0"
  then show "upload env s = (Inl ZeroDivisionError, s)"
    by (simp add: upload_def total_parts_def py_int_truediv_def)
next
  assume h: "part_size s < 0 \<and> \<bar>getsize env\<bar> < 2 ^ 1023 \<and> 1 \<le> max_retries s"
  then have "part_size s \<noteq> 0" by simp
  from total_parts_no_overflow[OF this] h obtain tp where
    tp: "total_parts (getsize env) (part_size s) = Inr tp" by blast
  from completion_timeout_no_overflow h obtain timeout where
    ct: "completion_timeout (getsize env) = Inr timeout" by blast
  obtain c s1 where create: "call_with_524_retry (create_call env) s = (c, s1)"
    by (cases "call_with_524_retry (create_call env) s") auto
  from create_facts[OF create[unfolded call_with_524_retry_def]] h obtain e0 where e0:
    "s1 = s\<lparr>trace := trace s @ e0\<rparr>" "e0 \<noteq> []" "hd e0 = CreateCall" by auto
  then obtain rest0 where "e0 = CreateCall # rest0" by (cases e0) auto
  with e0(1) have s1: "trace s1 = trace s @ CreateCall # rest0" by simp
  show "\<exists>rest. trace (snd (upload env s)) = trace s @ CreateCall # rest"
  proof (cases c)
    case (Inl e)
    with tp ct create s1 show ?thesis by (simp add: upload_def)
  next
    case (Inr v)
    show ?thesis
    proof (cases v)
      case None
      with Inr tp ct create s1 show ?thesis by (simp add: upload_def)
    next
      case (Some uid)
      obtain rb s2 where body:
        "upload_body env (getsize env) tp timeout (s1\<lparr>upload_id := Some uid\<rparr>) = (rb, s2)"
        by (cases "upload_body env (getsize env) tp timeout (s1\<lparr>upload_id := Some uid\<rparr>)") auto
      from upload_body_frame[OF body] obtain ext where "trace s2 = trace s1 @ ext" by auto
      with s1 have s2: "trace s2 = trace s @ CreateCall # (rest0 @ ext)" by simp
      from report_session_extends[of s2] obtain ext2 where
        "trace (report_session s2) = trace s2 @ ext2" by blast
      with s2 have rs2: "trace (report_session s2) = trace s @ CreateCall # (rest0 @ ext @ ext2)"
        by simp
      show ?thesis
        using Inr Some tp ct create body s2 rs2
        by (cases rb) (simp_all add: upload_def)
    qed
  qed
next
  assume h: "part_size s < 0 \<and> \<bar>getsize env\<bar> < 2 ^ 1023 \<and> max_retries s \<le> 0"
  then have "part_size s \<noteq> 0" by simp
  from total_parts_no_overflow[OF this] h obtain tp where
    tp: "total_parts (getsize env) (part_size s) = Inr tp" by blast
  from completion_timeout_no_overflow h obtain timeout where
    ct: "completion_timeout (getsize env) = Inr timeout" by blast
  from h have "max_retries s < 1" by simp
  then have "call_with_524_retry (create_call env) s = (Inr None, s)"
    by (simp add: call_with_524_retry_def call_with_524_retry_from_done)
  with tp ct show "upload env s = (Inl TypeError, s)"
    by (simp add: upload_def)
qed


theorem zero_part_size_fails_before_the_store_witness:
  "part_size (new_uploader 0 5) = 0 \<and>
   upload store_ok (new_uploader 0 5) = (Inl ZeroDivisionError, new_uploader 0 5) \<and>
   part_size (new_uploader (- 50) 5) < 0 \<and> \<bar>getsize store_empty_recount\<bar> < 2 ^ 1023 \<and>
   1 \<le> max_retries (new_uploader (- 50) 5) \<and>
   (\<exists>rest. trace (snd (upload store_empty_recount (new_uploader (- 50) 5)))
             = trace (new_uploader (- 50) 5) @ CreateCall # rest) \<and>
   part_size (new_uploader (- 50) 0) < 0 \<and> max_retries (new_uploader (- 50) 0) \<le> 0 \<and>
   upload store_empty_recount (new_uploader (- 50) 0) = (Inl TypeError, new_uploader (- 50) 0)"
  using zero_part_size_fails_before_the_store [of "new_uploader 0 5" store_ok]
    zero_part_size_fails_before_the_store [of "new_uploader (- 50) 5" store_empty_recount]
    zero_part_size_fails_before_the_store [of "new_uploader (- 50) 0" store_empty_recount]
  by (simp add: new_uploader_def store_ok_def store_empty_recount_def)


text \<open>
  A run with \<^verbatim>\<open>part_size = - 50\<close>: the plan has \<open>- 2118123\<close> parts, the session is
  created, no part is uploaded, and the run fails at the recount.
\<close>

theorem negative_part_size_counterexample:
  "part_size (new_uploader (- 50) 5) \<le> 0 \<and>
   upload store_empty_recount (new_uploader (- 50) 5)
     = (Inl (RuntimeError (PartCountMismatch (- 2118123) 0)),
        (new_uploader (- 50) 5)\<lparr>upload_id := Some ''u1'',
           trace := [CreateCall, ListPartsCall, ReportSession ''u1'']\<rparr>)"
  by (simp add: new_uploader_def store_empty_recount_def store_ok_def retry_eval part_eval driver_eval
      total_parts_negative_example completion_timeout_example)


section \<open>The chunk plan\<close>

text \<open>
  Claim C2, at a file of 14073748835532801 bytes (\<open>2 ^ 28\<close> parts of 50 MiB and one
  byte more) with the default part size. The exact quotient is not a binary64 value, the
  division rounds it down to \<open>2 ^ 28\<close>, and \<^verbatim>\<open>math.ceil\<close> of that is \<open>2 ^ 28\<close>: one
  part less than \<open>ceil(file_size / part_size)\<close>. The last part of the plan then ends one
  byte before the end of the file.
\<close>

theorem total_parts_float_rounding_loses_last_byte:
  "total_parts 14073748835532801 52428800 = Inr 268435456 \<and>
   - ((- 14073748835532801) div 52428800) = (268435457 :: int) \<and>
   chunk_offset 52428800 268435456 + chunk_size 14073748835532801 52428800 268435456
     = 14073748835532800"
  by (simp add: truediv_eval chunk_offset_def chunk_size_def)


text \<open>
  Below \<open>2 ^ 53\<close> bytes the plan is the one the claim describes: \<open>ceil(file_size /
  part_size)\<close> parts numbered from 1, part \<open>i\<close> at offset \<open>(i - 1) * part_size\<close>, each
  part followed directly by the next, every part but the last of length \<open>part_size\<close>,
  and the last one ending at \<open>file_size\<close>.
\<close>

lemma chunk_sizes:
  assumes fs: "0 \<le> fs" and ps: "0 < ps" and tp: "tp = - ((- fs) div ps)"
    and i: "1 \<le> i" "i \<le> tp"
  shows "chunk_size fs ps i = (if i < tp then ps else fs - (tp - 1) * ps)"
    and "0 < chunk_size fs ps i" and "chunk_size fs ps i \<le> ps"
proof -
  from ceil_div_bounds[OF ps, of fs] tp have b: "(tp - 1) * ps < fs" "fs \<le> tp * ps" by simp_all
  have sz: "chunk_size fs ps i = (if i < tp then ps else fs - (tp - 1) * ps)"
  proof (cases "i < tp")
    case True
    then have "i - 1 \<le> tp - 2" by simp
    then have "(i - 1) * ps \<le> (tp - 2) * ps" using ps by (intro mult_right_mono) simp_all
    also have "\<dots> = (tp - 1) * ps - ps" by (simp add: algebra_simps)
    finally have "ps \<le> fs - (i - 1) * ps" using b(1) by simp
    with True show ?thesis by (simp add: chunk_size_def chunk_offset_def)
  next
    case False
    with i have "i = tp" by simp
    moreover have "fs - (tp - 1) * ps \<le> ps" using b(2) by (simp add: algebra_simps)
    ultimately show ?thesis by (simp add: chunk_size_def chunk_offset_def)
  qed
  then show "chunk_size fs ps i = (if i < tp then ps else fs - (tp - 1) * ps)" .
  show "0 < chunk_size fs ps i" using sz ps b(1) by (simp split: if_splits)
  show "chunk_size fs ps i \<le> ps" using sz b(2) by (simp add: algebra_simps split: if_splits)
qed

lemma chunk_plan_numbers: "map fst (chunk_plan fs ps tp) = [1..tp]"
  by (simp add: chunk_plan_def comp_def)

lemma chunk_plan_correct_below_2_53:
  assumes "0 \<le> fs" "fs < 2 ^ 53" "0 < ps" "ps < 2 ^ 1022"
  shows "\<exists>tp. total_parts fs ps = Inr tp \<and>
           tp = - ((- fs) div ps) \<and>
           map fst (chunk_plan fs ps tp) = [1..tp] \<and>
           (\<forall>i. 1 \<le> i \<and> i \<le> tp \<longrightarrow>
              chunk_offset ps i = (i - 1) * ps \<and>
              chunk_size fs ps i
                = (if i < tp then ps else fs - (tp - 1) * ps) \<and>
              0 < chunk_size fs ps i \<and>
              chunk_offset ps (i + 1)
                = chunk_offset ps i + (if i < tp then chunk_size fs ps i
                                              else ps)) \<and>
           (0 < tp \<longrightarrow> chunk_offset ps 1 = 0 \<and>
              chunk_offset ps tp + chunk_size fs ps tp = fs) \<and>
           (tp = 0 \<longleftrightarrow> fs = 0)"
proof -
  let ?tp = "- ((- fs) div ps)"
  have tp: "total_parts fs ps = Inr ?tp"
    by (rule total_parts_exact[OF assms])
  from ceil_div_bounds[OF assms(3), of fs]
  have b: "(?tp - 1) * ps < fs" "fs \<le> ?tp * ps" by simp_all
  have z: "?tp = 0 \<longleftrightarrow> fs = 0"
  proof
    assume "?tp = 0"
    with b(2) assms(1) show "fs = 0" by simp
  next
    assume "fs = 0"
    then show "?tp = 0" by simp
  qed
  have per: "\<forall>i. 1 \<le> i \<and> i \<le> ?tp \<longrightarrow>
              chunk_offset ps i = (i - 1) * ps \<and>
              chunk_size fs ps i
                = (if i < ?tp then ps else fs - (?tp - 1) * ps) \<and>
              0 < chunk_size fs ps i \<and>
              chunk_offset ps (i + 1)
                = chunk_offset ps i + (if i < ?tp then chunk_size fs ps i
                                              else ps)"
  proof (intro allI impI)
    fix i assume i: "1 \<le> i \<and> i \<le> ?tp"
    then have i1: "1 \<le> i" and i2: "i \<le> ?tp" by simp_all
    note cs = chunk_sizes[OF assms(1) assms(3) refl i1 i2]
    show "chunk_offset ps i = (i - 1) * ps \<and>
              chunk_size fs ps i
                = (if i < ?tp then ps else fs - (?tp - 1) * ps) \<and>
              0 < chunk_size fs ps i \<and>
              chunk_offset ps (i + 1)
                = chunk_offset ps i + (if i < ?tp then chunk_size fs ps i
                                              else ps)"
      using cs(1,2) by (simp add: chunk_offset_def algebra_simps)
  qed
  have ends: "0 < ?tp \<longrightarrow> chunk_offset ps 1 = 0 \<and>
              chunk_offset ps ?tp + chunk_size fs ps ?tp = fs"
  proof
    assume p: "0 < ?tp"
    then have "1 \<le> ?tp" by simp
    from chunk_sizes(1)[OF assms(1) assms(3) refl this order_refl]
    show "chunk_offset ps 1 = 0 \<and>
              chunk_offset ps ?tp + chunk_size fs ps ?tp = fs"
      by (simp add: chunk_offset_def)
  qed
  from tp chunk_plan_numbers per ends z show ?thesis by blast
qed

section \<open>The timeouts of the completion coordinator\<close>

lemma filter_none: "\<forall>x\<in>set xs. \<not> P x \<Longrightarrow> filter P xs = []"
  by (induction xs) auto

text \<open>
  The complete requests of one call of the coordinator carry the timeouts
  \<open>timeout\<close>, \<open>2 * timeout\<close>, \<open>4 * timeout\<close>, \<dots>: request \<open>n\<close> carries
  \<open>timeout * 2 ^ (n - 1)\<close>, and there are at most \<^verbatim>\<open>max_retries\<close> of them.
\<close>

lemma complete_from_timeouts:
  "complete_from env mr expected_size attempt timeout last_exc s = (r, s') \<Longrightarrow>
   \<exists>ext j. trace s' = trace s @ ext \<and> int j \<le> max 0 (mr + 1 - attempt) \<and>
      filter is_complete_call ext = map (\<lambda>i. CompleteCall (timeout * 2 ^ i)) [0..<j]"
proof (induction "nat (mr + 1 - attempt)" arbitrary: attempt timeout last_exc s r s')
  case 0
  then have "mr < attempt" by simp
  with 0 show ?case
    by (auto simp: complete_from_done intro!: exI[of _ "[]"] exI[of _ "0::nat"])
next
  case (Suc n)
  then have le: "attempt \<le> mr" and n: "n = nat (mr + 1 - (attempt + 1))" by auto
  let ?ev = "CompleteCall timeout"
  let ?s1 = "emit ?ev s"
  have one: "int (Suc 0) \<le> max 0 (mr + 1 - attempt)" using le by simp
  show ?case
  proof (cases "s3_complete_multipart_upload env (calls is_complete_call (trace s))")
    case (Inr u)
    with Suc.prems have "s' = ?s1\<lparr>client_timeout := Some timeout\<rparr>"
      by (auto simp: complete_from_step[OF le])
    then have "trace s' = trace s @ [?ev]" by (simp add: emit_def)
    with one show ?thesis
      by (intro exI[of _ "[?ev]"] exI[of _ "Suc 0"]) simp
  next
    case (Inl e)
    show ?thesis
    proof (cases "is_timeout_error e \<or> is_client_error e \<or> is_botocore_error e")
      case False
      with Inl Suc.prems have "s' = ?s1"
        by (auto simp: complete_from_step[OF le])
      then have "trace s' = trace s @ [?ev]" by (simp add: emit_def)
      with one show ?thesis
        by (intro exI[of _ "[?ev]"] exI[of _ "Suc 0"]) simp
    next
      case True
      let ?s2 = "if \<not> is_timeout_error e \<and> is_no_such_upload_error e then ?s1
                 else emit (Sleep timeout) ?s1"
      obtain head s3 where poll: "call_with_524_retry_from mr (head_call env) 1 ?s2 = (head, s3)"
        by (cases "call_with_524_retry_from mr (head_call env) 1 ?s2") auto
      from poll_frame[OF poll] obtain e3 where e3: "s3 = ?s2\<lparr>trace := trace ?s2 @ e3\<rparr>"
        "\<forall>x\<in>set e3. x = HeadCall \<or> is_sleep x" by blast
      have "\<forall>x\<in>set e3. \<not> is_complete_call x"
      proof
        fix x assume "x \<in> set e3"
        with e3(2) have "x = HeadCall \<or> is_sleep x" by blast
        then show "\<not> is_complete_call x" by (cases x) auto
      qed
      then have f3: "filter is_complete_call e3 = []" by (rule filter_none)
      obtain e2 where e2: "trace ?s2 = trace s @ e2" "filter is_complete_call e2 = [?ev]"
      proof (cases "\<not> is_timeout_error e \<and> is_no_such_upload_error e")
        case True
        then have "trace ?s2 = trace s @ [?ev]" by (simp add: emit_def)
        then show ?thesis using that[of "[?ev]"] by simp
      next
        case False
        then have "trace ?s2 = trace s @ [?ev, Sleep timeout]" by (auto simp add: emit_def)
        then show ?thesis using that[of "[?ev, Sleep timeout]"] by simp
      qed
      have s3: "trace s3 = trace s @ (e2 @ e3)" "filter is_complete_call (e2 @ e3) = [?ev]"
        using e3(1) e2 f3 by simp_all
      consider (matched) "s' = s3\<lparr>client_timeout := Some timeout\<rparr>" | (stop) "s' = s3"
        | (retry) "complete_from env mr expected_size (attempt + 1) (timeout * 2) (Some e) s3 = (r, s')"
        using Suc.prems Inl True poll
        by (auto simp: complete_from_step[OF le] split: if_splits)
      then show ?thesis
      proof cases
        case matched
        with s3 one show ?thesis
          by (intro exI[of _ "e2 @ e3"] exI[of _ "Suc 0"]) simp
      next
        case stop
        with s3 one show ?thesis
          by (intro exI[of _ "e2 @ e3"] exI[of _ "Suc 0"]) simp
      next
        case retry
        from Suc.hyps(1)[OF n retry] obtain e4 j where e4:
          "trace s' = trace s3 @ e4" "int j \<le> max 0 (mr + 1 - (attempt + 1))"
          "filter is_complete_call e4 = map (\<lambda>i. CompleteCall (timeout * 2 * 2 ^ i)) [0..<j]"
          by blast
        have j: "int (Suc j) \<le> max 0 (mr + 1 - attempt)" using e4(2) le by simp
        have "filter is_complete_call ((e2 @ e3) @ e4)
            = ?ev # map (\<lambda>i. CompleteCall (timeout * 2 * 2 ^ i)) [0..<j]"
          using s3(2) e4(3) by simp
        also have "\<dots> = map (\<lambda>i. CompleteCall (timeout * 2 ^ i)) [0..<Suc j]"
          by (simp only: map_upt_Suc) (simp add: mult.assoc)
        finally have "filter is_complete_call ((e2 @ e3) @ e4)
            = map (\<lambda>i. CompleteCall (timeout * 2 ^ i)) [0..<Suc j]" .
        moreover have "trace s' = trace s @ ((e2 @ e3) @ e4)" using e4(1) s3(1) by simp
        ultimately show ?thesis using j by blast
      qed
    qed
  qed
qed

lemma complete_with_timeout_retry_timeouts:
  assumes "complete_with_timeout_retry env initial_timeout expected_size s = (r, s')"
  shows "\<exists>ext j. trace s' = trace s @ ext \<and> int j \<le> max 0 (max_retries s) \<and>
      filter is_complete_call ext = map (\<lambda>i. CompleteCall (initial_timeout * 2 ^ i)) [0..<j]"
proof (cases "upload_id s = None")
  case True
  with assms have "s' = s" by (simp add: complete_with_timeout_retry_def)
  then show ?thesis by (intro exI[of _ "[]"] exI[of _ "0::nat"]) simp
next
  case False
  with assms have "complete_from env (max_retries s) expected_size 1 initial_timeout None s = (r, s')"
    by (simp add: complete_with_timeout_retry_def)
  from complete_from_timeouts[OF this] show ?thesis by simp
qed

text \<open>
  Claim C7, as the code has it. For a file of at most \<open>2 ^ 53\<close> bytes the first timeout
  is \<open>max(60, 5 * ceil(file_size / 2 ^ 30))\<close> seconds, and in every call of the
  coordinator that starts with it, complete request \<open>n\<close> carries that timeout times
  \<open>2 ^ (n - 1)\<close> (request \<open>i\<close> counted from 0 carries it times \<open>2 ^ i\<close>); at most
  \<^verbatim>\<open>max_retries\<close> complete requests are sent.
\<close>

theorem completion_timeout_schedule:
  assumes "0 \<le> fs" and "fs \<le> 2 ^ 53"
    and "complete_with_timeout_retry env (max 60 (5 * - ((- fs) div 2 ^ 30))) expected_size s
           = (r, s')"
  shows "completion_timeout fs = Inr (max 60 (5 * - ((- fs) div 2 ^ 30))) \<and>
         (\<exists>ext j. trace s' = trace s @ ext \<and> int j \<le> max 0 (max_retries s) \<and>
            filter is_complete_call ext
              = map (\<lambda>i. CompleteCall (max 60 (5 * - ((- fs) div 2 ^ 30)) * 2 ^ i)) [0..<j])"
proof -
  have "completion_timeout fs = Inr (max 60 (- ((- fs) div 2 ^ 30) * 5))"
    by (rule completion_timeout_exact[OF assms(1,2)])
  then have "completion_timeout fs = Inr (max 60 (5 * - ((- fs) div 2 ^ 30)))"
    by (simp add: mult.commute)
  with complete_with_timeout_retry_timeouts[OF assms(3)] show ?thesis by simp
qed


lemma coordinator_never_merges_run:
  "complete_with_timeout_retry store_never_merges 70 13958643713 (started_uploader 52428800 3)
     = (Inl ReadTimeoutError,
        (started_uploader 52428800 3)\<lparr>trace :=
           [CompleteCall 70, Sleep 70, HeadCall, CompleteCall 140, Sleep 140, HeadCall,
            CompleteCall 280, Sleep 280, HeadCall]\<rparr>)"
  by (simp add: started_uploader_def new_uploader_def store_never_merges_def store_ok_def
      retry_eval complete_eval)


theorem completion_timeout_schedule_witness:
  "(0::int) \<le> 13958643713 \<and> (13958643713::int) \<le> 2 ^ 53 \<and>
   max 60 (5 * - ((- 13958643713) div 2 ^ 30)) = (70::int) \<and>
   completion_timeout 13958643713 = Inr 70 \<and>
   complete_with_timeout_retry store_never_merges 70 13958643713 (started_uploader 52428800 3)
     = (Inl ReadTimeoutError,
        (started_uploader 52428800 3)\<lparr>trace :=
           [CompleteCall 70, Sleep 70, HeadCall, CompleteCall 140, Sleep 140, HeadCall,
            CompleteCall 280, Sleep 280, HeadCall]\<rparr>) \<and>
   filter is_complete_call
       [CompleteCall 70, Sleep 70, HeadCall, CompleteCall 140, Sleep 140, HeadCall,
        CompleteCall 280, Sleep 280, HeadCall]
     = map (\<lambda>i. CompleteCall (70 * 2 ^ i)) [0..<3]"
proof -
  have t: "max 60 (5 * - ((- 13958643713) div 2 ^ 30)) = (70::int)" by simp
  have run: "complete_with_timeout_retry store_never_merges
       (max 60 (5 * - ((- 13958643713) div 2 ^ 30))) 13958643713 (started_uploader 52428800 3)
     = (Inl ReadTimeoutError,
        (started_uploader 52428800 3)\<lparr>trace :=
           [CompleteCall 70, Sleep 70, HeadCall, CompleteCall 140, Sleep 140, HeadCall,
            CompleteCall 280, Sleep 280, HeadCall]\<rparr>)"
    unfolding t by (rule coordinator_never_merges_run)
  have b: "(0::int) \<le> 13958643713" "(13958643713::int) \<le> 2 ^ 53" by simp_all
  from completion_timeout_schedule [OF b run] have "completion_timeout 13958643713 = Inr 70"
    by simp
  with coordinator_never_merges_run show ?thesis
    by (simp add: upt_rec)
qed

text \<open>
  Above \<open>2 ^ 53\<close> bytes the formula can fail: \<^verbatim>\<open>file_size / float(1024**3)\<close> first turns
  the size into a float, which rounds \<open>2 ^ 53 + 1\<close> to \<open>2 ^ 53\<close>; the first timeout is then
  \<open>5 * 2 ^ 23\<close> seconds, and not \<open>5 * ceil(file_size / 2 ^ 30) = 5 * (2 ^ 23 + 1)\<close>.
\<close>

theorem completion_timeout_float_rounding:
  "completion_timeout 9007199254740993 = Inr 41943040 \<and>
   max 60 (5 * - ((- 9007199254740993) div 2 ^ 30)) = (41943045 :: int)"
  by (simp add: truediv_eval)

end
